theory Spec2Isabelle
  imports Main "HOL-Library.Word"
begin

section \<open>Errors, durations and decimal integers\<close>

text \<open>
  A Go \<open>error\<close> is modelled by its message. \<open>time.Duration\<close> is a signed 64-bit
  count of nanoseconds; arithmetic on it wraps, and \<open>sint\<close> reads the signed value.
\<close>

datatype error = Error string

type_synonym Duration = "64 word"

definition Millisecond :: Duration where
  "Millisecond = 1000000"

text \<open>
  \<open>strconv.Atoi\<close> (standard library, 64-bit \<open>int\<close>): an optional sign followed by one
  or more decimal digits; a value outside the range of \<open>int\<close> is an error.
\<close>

definition isDigit :: "char \<Rightarrow> bool" where
  "isDigit c = (c \<in> set ''0123456789'')"

definition digitVal :: "char \<Rightarrow> nat" where
  "digitVal c = of_char c - 48"

definition decimal :: "string \<Rightarrow> nat" where
  "decimal ds = foldl (\<lambda>acc c. 10 * acc + digitVal c) 0 ds"

definition Atoi :: "string \<Rightarrow> error + int" where
  "Atoi s =
     (let (neg, ds) =
            (case s of
               [] \<Rightarrow> (False, [])
             | c # r \<Rightarrow>
                 if c = CHR ''-'' then (True, r)
                 else if c = CHR ''+'' then (False, r)
                 else (False, s))
      in if ds = [] \<or> \<not> list_all isDigit ds
         then Inl (Error (''strconv.Atoi: parsing '' @ s @ '': invalid syntax''))
         else
           (let v = (if neg then - int (decimal ds) else int (decimal ds))
            in if v < - (2 ^ 63) \<or> 2 ^ 63 - 1 < v
               then Inl (Error (''strconv.Atoi: parsing '' @ s @ '': value out of range''))
               else Inr v))"

section \<open>envOnce\<close>

text \<open>
  The process environment is a finite map; \<open>os.Getenv\<close> gives the empty string
  for a variable that is not set. The \<open>sync.Once\<close> of an entry is the flag
  \<open>once\<close>: it is set when \<open>init\<close> has run.
\<close>

type_synonym environ = "string \<rightharpoonup> string"

definition Getenv :: "environ \<Rightarrow> string \<Rightarrow> string" where
  "Getenv env n = (case env n of None \<Rightarrow> [] | Some v \<Rightarrow> v)"

record envOnce =
  names :: "string list"
  once :: bool
  val :: string

fun init_loop :: "environ \<Rightarrow> string list \<Rightarrow> envOnce \<Rightarrow> envOnce" where
  "init_loop env [] e = e"
| "init_loop env (n # ns) e =
     (let e' = e\<lparr>val := Getenv env n\<rparr>
      in if val e' \<noteq> [] then e' else init_loop env ns e')"

definition init :: "environ \<Rightarrow> envOnce \<Rightarrow> envOnce" where
  "init env e = init_loop env (names e) e"

definition Get :: "environ \<Rightarrow> envOnce \<Rightarrow> string \<times> envOnce" where
  "Get env e =
     (let e' = (if once e then e else (init env e)\<lparr>once := True\<rparr>)
      in (val e', e'))"

definition reset :: "envOnce \<Rightarrow> envOnce" where
  "reset e = e\<lparr>once := False, val := []\<rparr>"

definition allProxyEnv_new :: envOnce where
  "allProxyEnv_new = \<lparr>names = [''ALL_PROXY'', ''all_proxy''], once = False, val = []\<rparr>"

definition noProxyEnv_new :: envOnce where
  "noProxyEnv_new = \<lparr>names = [''NO_PROXY'', ''no_proxy''], once = False, val = []\<rparr>"

definition timeoutEnv_new :: envOnce where
  "timeoutEnv_new = \<lparr>names = [''TIMEOUT'', ''timeout''], once = False, val = []\<rparr>"

section \<open>URLs, credentials and dialers\<close>

text \<open>
  Of \<open>url.URL\<close> only the fields that \<open>FromURL\<close> reads are kept. \<open>URL_User\<close> is the
  field \<open>User\<close> (a pointer, so optional); \<open>Username\<close> and \<open>Userinfo_Password\<close> are the
  two methods of \<open>url.Userinfo\<close>.
\<close>

record Userinfo =
  ui_username :: string
  ui_password :: string
  ui_passwordSet :: bool

definition Username :: "Userinfo \<Rightarrow> string" where
  "Username ui = ui_username ui"

definition Userinfo_Password :: "Userinfo \<Rightarrow> string \<times> bool" where
  "Userinfo_Password ui = (ui_password ui, ui_passwordSet ui)"

record URL =
  Scheme :: string
  URL_User :: "Userinfo option"
  Host :: string

record Auth =
  User :: string
  Password :: string

text \<open>
  Modelled from the spec: the files of the package that define \<open>Direct\<close>, \<open>NewPerHost\<close>
  and the SOCKS5 dialer are not part of the source at hand. \<open>Direct\<close> is the Direct
  Connector, a constant; \<open>PerHost proxy Direct noProxy\<close> is the Bypass Router that
  \<open>NewPerHost\<close> builds for the proxy connector and the Direct Connector, with its match
  list configured from the bypass string by \<open>AddFromString\<close>; \<open>Foreign\<close> stands for a
  dialer built elsewhere (by the SOCKS5 factory or by a registered factory), opaque here.

  The interface \<open>Dialer\<close> is the tagged union of these and of \<open>httpProxy\<close>, the struct
  of the source.
\<close>

datatype Dialer =
    Direct
  | HTTPProxy httpProxy
  | PerHost Dialer Dialer string
  | Foreign nat
and httpProxy =
    httpProxy (user: string) (password: string) (network: string) (addr: string)
      (forward: Dialer) (timeout: Duration)

definition dialAddr :: "httpProxy \<Rightarrow> string" where
  "dialAddr s =
     (if user s = [] then addr s
      else
        (let addr0 = user s;
             addr1 = (if password s \<noteq> [] then addr0 @ '':'' @ password s else addr0)
         in addr1 @ ''@'' @ addr s))"

definition HTTPProxyDialer ::
  "string \<Rightarrow> string \<Rightarrow> Auth option \<Rightarrow> Dialer \<Rightarrow> Duration \<Rightarrow> error + Dialer" where
  "HTTPProxyDialer network' addr' auth forward' timeout' =
     (let s = httpProxy [] [] network' addr' forward' timeout';
          s' = (case auth of
                  None \<Rightarrow> s
                | Some a \<Rightarrow>
                    httpProxy (User a) (Password a) (network s) (addr s) (forward s) (timeout s))
      in Inr (HTTPProxy s'))"

section \<open>The scheme registry and FromURL\<close>

type_synonym factory = "URL \<Rightarrow> Dialer \<Rightarrow> Duration \<Rightarrow> error + Dialer"

text \<open>
  \<open>proxySchemes\<close> is a map that is \<open>nil\<close> until the first registration: \<open>None\<close>
  is the nil map.
\<close>

type_synonym registry = "(string \<rightharpoonup> factory) option"

definition RegisterDialerType :: "string \<Rightarrow> factory \<Rightarrow> registry \<Rightarrow> registry" where
  "RegisterDialerType scheme f proxySchemes =
     (let m = (case proxySchemes of None \<Rightarrow> Map.empty | Some m \<Rightarrow> m)
      in Some (m(scheme \<mapsto> f)))"

text \<open>
  The SOCKS5 factory is a function of the package that is outside the source at hand; it
  is a parameter of \<open>FromURL\<close>.
\<close>

type_synonym socks5 =
  "string \<Rightarrow> string \<Rightarrow> Auth option \<Rightarrow> Dialer \<Rightarrow> Duration \<Rightarrow> error + Dialer"

text \<open>
  \<open>authFromURL\<close> is the first block of \<open>FromURL\<close>: the credentials of the URL, with
  the password taken only when the URL sets one.
\<close>

definition authFromURL :: "URL \<Rightarrow> Auth option" where
  "authFromURL u =
     (case URL_User u of
        None \<Rightarrow> None
      | Some ui \<Rightarrow>
          Some \<lparr>User = Username ui,
                Password = (case Userinfo_Password ui of (p, ok) \<Rightarrow> if ok then p else [])\<rparr>)"

definition FromURL ::
  "socks5 \<Rightarrow> registry \<Rightarrow> URL \<Rightarrow> Dialer \<Rightarrow> Duration \<Rightarrow> error + Dialer" where
  "FromURL SOCKS5 proxySchemes u forward' timeout' =
     (let auth = authFromURL u
      in if Scheme u = ''socks5'' then SOCKS5 ''tcp'' (Host u) auth forward' timeout'
         else if Scheme u = ''http'' \<or> Scheme u = ''https''
         then HTTPProxyDialer ''tcp'' (Host u) auth forward' timeout'
         else
           (case proxySchemes of
              None \<Rightarrow> Inl (Error (''proxy: unknown scheme: '' @ Scheme u))
            | Some m \<Rightarrow>
                (case m (Scheme u) of
                   Some f \<Rightarrow> f u forward' timeout'
                 | None \<Rightarrow> Inl (Error (''proxy: unknown scheme: '' @ Scheme u)))))"

section \<open>FromEnvironment\<close>

text \<open>
  The package-level variables that \<open>FromEnvironment\<close> reads and updates are passed
  as a record and returned updated. \<open>url.Parse\<close> (standard library) is a parameter.
\<close>

record globals =
  allProxyEnv :: envOnce
  noProxyEnv :: envOnce
  timeoutEnv :: envOnce
  proxySchemes :: registry

definition globals_new :: globals where
  "globals_new =
     \<lparr>allProxyEnv = allProxyEnv_new, noProxyEnv = noProxyEnv_new,
      timeoutEnv = timeoutEnv_new, proxySchemes = None\<rparr>"

text \<open>
  \<open>timeoutMillis\<close> is the block of \<open>FromEnvironment\<close> that computes its local
  variable \<open>timeout\<close> from the string of the timeout variable.
\<close>

definition timeoutMillis :: "string \<Rightarrow> int" where
  "timeoutMillis timeoutString =
     (let timeoutString' = (if length timeoutString = 0 then ''1000'' else timeoutString)
      in case Atoi timeoutString' of Inl err \<Rightarrow> 1000 | Inr t \<Rightarrow> t)"

definition FromEnvironment ::
  "(string \<Rightarrow> error + URL) \<Rightarrow> socks5 \<Rightarrow> environ \<Rightarrow> globals \<Rightarrow> Dialer \<times> globals" where
  "FromEnvironment url_Parse SOCKS5 env g =
     (let (allProxy, e1) = Get env (allProxyEnv g);
          g1 = g\<lparr>allProxyEnv := e1\<rparr>
      in if length allProxy = 0 then (Direct, g1)
         else
           (case url_Parse allProxy of
              Inl err \<Rightarrow> (Direct, g1)
            | Inr proxyURL \<Rightarrow>
                (let (timeoutString, e2) = Get env (timeoutEnv g1);
                     g2 = g1\<lparr>timeoutEnv := e2\<rparr>;
                     timeout' = timeoutMillis timeoutString
                 in case FromURL SOCKS5 (proxySchemes g2) proxyURL Direct
                           (Millisecond * word_of_int timeout') of
                      Inl err \<Rightarrow> (Direct, g2)
                    | Inr proxy \<Rightarrow>
                        (let (noProxy, e3) = Get env (noProxyEnv g2);
                             g3 = g2\<lparr>noProxyEnv := e3\<rparr>
                         in if length noProxy = 0 then (proxy, g3)
                            else (PerHost proxy Direct noProxy, g3)))))"

section \<open>Connections\<close>

text \<open>
  A \<open>net.Conn\<close> is modelled by a scripted connection. \<open>incoming\<close> holds the
  bytes the peer sends, split into the chunks in which they arrive: a \<open>Read\<close>
  returns bytes of the first chunk only, at most as many as the caller's buffer holds,
  and reports \<open>io.EOF\<close> when no chunk is left. \<open>outgoing\<close> collects what was
  written. The four \<open>...Err\<close> fields script the failure of the corresponding
  operation. A point in time is an integer count of nanoseconds.
\<close>

record conn =
  incoming :: "string list"
  outgoing :: string
  closed :: bool
  readDeadline :: "int option"
  writeDeadline :: "int option"
  setDeadlineErr :: "error option"
  setReadDeadlineErr :: "error option"
  setWriteDeadlineErr :: "error option"
  writeErr :: "error option"

definition EOF :: error where
  "EOF = Error ''EOF''"

definition ErrUnexpectedEOF :: error where
  "ErrUnexpectedEOF = Error ''unexpected EOF''"

definition ErrNoProgress :: error where
  "ErrNoProgress = Error ''multiple Read calls return no data or error''"

definition ErrClosed :: error where
  "ErrClosed = Error ''use of closed network connection''"

definition conn_Read :: "nat \<Rightarrow> conn \<Rightarrow> (string \<times> error option) \<times> conn" where
  "conn_Read n c =
     (if closed c then (([], Some ErrClosed), c)
      else
        (case incoming c of
           [] \<Rightarrow> (([], Some EOF), c)
         | ch # rest \<Rightarrow>
             ((take n ch, None),
              c\<lparr>incoming := (if drop n ch = [] then rest else drop n ch # rest)\<rparr>)))"

definition conn_Write :: "string \<Rightarrow> conn \<Rightarrow> error option \<times> conn" where
  "conn_Write bs c =
     (if closed c then (Some ErrClosed, c)
      else
        (case writeErr c of
           Some err \<Rightarrow> (Some err, c)
         | None \<Rightarrow> (None, c\<lparr>outgoing := outgoing c @ bs\<rparr>)))"

definition conn_Close :: "conn \<Rightarrow> error option \<times> conn" where
  "conn_Close c =
     (if closed c then (Some ErrClosed, c) else (None, c\<lparr>closed := True\<rparr>))"

definition conn_SetDeadline :: "int \<Rightarrow> conn \<Rightarrow> error option \<times> conn" where
  "conn_SetDeadline t c =
     (if closed c then (Some ErrClosed, c)
      else
        (case setDeadlineErr c of
           Some err \<Rightarrow> (Some err, c)
         | None \<Rightarrow> (None, c\<lparr>readDeadline := Some t, writeDeadline := Some t\<rparr>)))"

definition conn_SetReadDeadline :: "int \<Rightarrow> conn \<Rightarrow> error option \<times> conn" where
  "conn_SetReadDeadline t c =
     (if closed c then (Some ErrClosed, c)
      else
        (case setReadDeadlineErr c of
           Some err \<Rightarrow> (Some err, c)
         | None \<Rightarrow> (None, c\<lparr>readDeadline := Some t\<rparr>)))"

definition conn_SetWriteDeadline :: "int \<Rightarrow> conn \<Rightarrow> error option \<times> conn" where
  "conn_SetWriteDeadline t c =
     (if closed c then (Some ErrClosed, c)
      else
        (case setWriteDeadlineErr c of
           Some err \<Rightarrow> (Some err, c)
         | None \<Rightarrow> (None, c\<lparr>writeDeadline := Some t\<rparr>)))"

section \<open>The buffered reader\<close>

text \<open>
  \<open>bufio.Reader\<close> (standard library), as far as the handshake uses it. \<open>unread\<close> is
  the part of the buffer that has been filled and not yet consumed, \<open>rerr\<close> the pending
  read error. The reader's source is the connection, which is passed along with it. The
  buffer holds \<open>defaultBufSize\<close> bytes; \<open>fill\<close> asks the source for as many bytes as
  are free, and gives up after \<open>maxConsecutiveEmptyReads\<close> reads without data.
\<close>

record bufio_Reader =
  unread :: string
  rerr :: "error option"

definition defaultBufSize :: nat where
  "defaultBufSize = 4096"

definition maxConsecutiveEmptyReads :: nat where
  "maxConsecutiveEmptyReads = 100"

definition NewReader :: bufio_Reader where
  "NewReader = \<lparr>unread = [], rerr = None\<rparr>"

definition Buffered :: "bufio_Reader \<Rightarrow> nat" where
  "Buffered b = length (unread b)"

fun fill_loop :: "nat \<Rightarrow> bufio_Reader \<Rightarrow> conn \<Rightarrow> bufio_Reader \<times> conn" where
  "fill_loop 0 b c = (b\<lparr>rerr := Some ErrNoProgress\<rparr>, c)"
| "fill_loop (Suc i) b c =
     (case conn_Read (defaultBufSize - length (unread b)) c of
        ((data, e), c') \<Rightarrow>
          (let b' = b\<lparr>unread := unread b @ data\<rparr>
           in case e of
                Some err \<Rightarrow> (b'\<lparr>rerr := Some err\<rparr>, c')
              | None \<Rightarrow> if 0 < length data then (b', c') else fill_loop i b' c'))"

definition fill :: "bufio_Reader \<Rightarrow> conn \<Rightarrow> bufio_Reader \<times> conn" where
  "fill b c = fill_loop maxConsecutiveEmptyReads b c"

text \<open>
  \<open>bufio.Reader.Read\<close>: with bytes in the buffer it copies from the buffer and does
  not touch the source; with an empty buffer it reads from the source once.
\<close>

definition bufio_Read ::
  "nat \<Rightarrow> bufio_Reader \<Rightarrow> conn \<Rightarrow> (string \<times> error option) \<times> bufio_Reader \<times> conn" where
  "bufio_Read n b c =
     (if n = 0 then
        (if 0 < Buffered b then (([], None), b, c)
         else (([], rerr b), b\<lparr>rerr := None\<rparr>, c))
      else if unread b = [] then
        (if rerr b \<noteq> None then (([], rerr b), b\<lparr>rerr := None\<rparr>, c)
         else if defaultBufSize \<le> n then
           (case conn_Read n c of ((data, e), c') \<Rightarrow> ((data, e), b, c'))
         else
           (case conn_Read defaultBufSize c of
              ((data, e), c') \<Rightarrow>
                if data = [] then (([], e), b, c')
                else ((take n data, None), b\<lparr>unread := drop n data, rerr := e\<rparr>, c')))
      else ((take n (unread b), None), b\<lparr>unread := drop n (unread b)\<rparr>, c))"

section \<open>Reading lines\<close>

text \<open>
  \<open>textproto.Reader.ReadLine\<close> over \<open>bufio.Reader.ReadLine\<close> and \<open>ReadSlice\<close> (standard
  library). A line ends at the first line feed; the line feed and a carriage return
  before it are dropped. While no line feed is buffered, a pending read error ends the
  line with what is buffered (or is reported, when nothing is buffered), a full buffer is
  handed over as a piece of the line (a trailing carriage return stays behind), and
  otherwise the buffer is filled.
\<close>

definition LF :: char where
  "LF = CHR 0x0A"

definition CR :: char where
  "CR = CHR 0x0D"

definition SP :: char where
  "SP = CHR 0x20"

definition conn_size :: "conn \<Rightarrow> nat" where
  "conn_size c = size_list length (incoming c)"

lemma conn_Read_size:
  "conn_Read n c = ((data, e), c') \<Longrightarrow> conn_size c' \<le> conn_size c"
  by (auto simp: conn_Read_def conn_size_def split: if_splits list.splits)

lemma conn_Read_size_less:
  "conn_Read n c = ((data, None), c') \<Longrightarrow> 0 < n \<Longrightarrow> conn_size c' < conn_size c"
  by (auto simp: conn_Read_def conn_size_def split: if_splits list.splits)

lemma fill_loop_size:
  "fill_loop i b c = (b', c') \<Longrightarrow> conn_size c' \<le> conn_size c"
proof (induction i arbitrary: b c)
  case 0
  then show ?case by simp
next
  case (Suc i)
  obtain data e c1 where r: "conn_Read (defaultBufSize - length (unread b)) c = ((data, e), c1)"
    by (metis prod.exhaust)
  have le1: "conn_size c1 \<le> conn_size c"
    using r by (rule conn_Read_size)
  show ?case
  proof (cases e)
    case (Some err)
    with Suc.prems r le1 show ?thesis by simp
  next
    case None
    show ?thesis
    proof (cases "data = []")
      case True
      with Suc.prems r None
      have "fill_loop i (b\<lparr>unread := unread b @ data\<rparr>) c1 = (b', c')" by simp
      then have "conn_size c' \<le> conn_size c1" by (rule Suc.IH)
      with le1 show ?thesis by simp
    next
      case False
      with Suc.prems r None le1 show ?thesis by simp
    qed
  qed
qed

lemma fill_loop_size_less:
  "fill_loop i b c = (b', c') \<Longrightarrow> rerr b' = None \<Longrightarrow> length (unread b) < defaultBufSize
     \<Longrightarrow> conn_size c' < conn_size c"
proof (induction i arbitrary: b c)
  case 0
  then show ?case by auto
next
  case (Suc i)
  obtain data e c1 where r: "conn_Read (defaultBufSize - length (unread b)) c = ((data, e), c1)"
    by (metis prod.exhaust)
  show ?case
  proof (cases e)
    case (Some err)
    with Suc.prems r show ?thesis by auto
  next
    case None
    have lt1: "conn_size c1 < conn_size c"
      using r None Suc.prems(3) by (auto intro: conn_Read_size_less)
    show ?thesis
    proof (cases "data = []")
      case True
      with Suc.prems r None
      have "fill_loop i (b\<lparr>unread := unread b @ data\<rparr>) c1 = (b', c')" by simp
      then have "conn_size c' \<le> conn_size c1" by (rule fill_loop_size)
      with lt1 show ?thesis by simp
    next
      case False
      with Suc.prems r None lt1 show ?thesis by simp
    qed
  qed
qed

definition dropCR :: "string \<Rightarrow> string" where
  "dropCR l = (if l \<noteq> [] \<and> last l = CR then butlast l else l)"

function readLine_loop ::
  "string \<Rightarrow> bufio_Reader \<Rightarrow> conn \<Rightarrow> (error + string) \<times> bufio_Reader \<times> conn" where
  "readLine_loop acc b c =
     (if LF \<in> set (unread b) then
        (Inr (acc @ dropCR (takeWhile (\<lambda>x. x \<noteq> LF) (unread b))),
         b\<lparr>unread := tl (dropWhile (\<lambda>x. x \<noteq> LF) (unread b))\<rparr>, c)
      else if rerr b \<noteq> None then
        (if unread b = [] then Inl (the (rerr b)) else Inr (acc @ unread b),
         b\<lparr>unread := [], rerr := None\<rparr>, c)
      else if defaultBufSize \<le> length (unread b) then
        (if last (unread b) = CR
         then readLine_loop (acc @ butlast (unread b)) (b\<lparr>unread := [CR]\<rparr>) c
         else readLine_loop (acc @ unread b) (b\<lparr>unread := []\<rparr>) c)
      else
        (case fill b c of (b', c') \<Rightarrow> readLine_loop acc b' c'))"
  by pat_completeness auto
termination
proof (relation "measures [\<lambda>(acc, b, c). 2 * conn_size c + (if rerr b = None then 1 else 0),
                           \<lambda>(acc, b, c). length (unread b)]", goal_cases)
  case 1
  show ?case by simp
next
  case (2 acc b c)
  then show ?case by (simp add: defaultBufSize_def)
next
  case (3 acc b c)
  then show ?case by (auto simp: defaultBufSize_def)
next
  case (4 acc b c x y)
  then have f: "fill_loop maxConsecutiveEmptyReads b c = (x, y)" by (simp add: fill_def)
  have le: "conn_size y \<le> conn_size c" using f by (rule fill_loop_size)
  have "rerr x = None \<Longrightarrow> conn_size y < conn_size c"
    using f 4(3) by (auto intro: fill_loop_size_less)
  with le 4(2) have "2 * conn_size y + (if rerr x = None then 1 else 0)
      < 2 * conn_size c + (if rerr b = None then 1 else 0)"
    by auto
  with 4(4) [symmetric] show ?case by (simp add: fill_def f)
qed

declare readLine_loop.simps [simp del]

definition readLine :: "bufio_Reader \<Rightarrow> conn \<Rightarrow> (error + string) \<times> bufio_Reader \<times> conn" where
  "readLine b c = readLine_loop [] b c"

definition stock :: "bufio_Reader \<Rightarrow> conn \<Rightarrow> nat" where
  "stock b c = length (unread b) + conn_size c"

lemma conn_Read_stock:
  "conn_Read n c = ((data, e), c') \<Longrightarrow> length data + conn_size c' \<le> conn_size c"
  by (auto simp: conn_Read_def conn_size_def split: if_splits list.splits)

lemma fill_loop_stock:
  "fill_loop i b c = (b', c') \<Longrightarrow> stock b' c' \<le> stock b c"
proof (induction i arbitrary: b c)
  case 0
  then show ?case by (auto simp: stock_def)
next
  case (Suc i)
  obtain data e c1 where r: "conn_Read (defaultBufSize - length (unread b)) c = ((data, e), c1)"
    by (metis prod.exhaust)
  have le1: "length data + conn_size c1 \<le> conn_size c"
    using r by (rule conn_Read_stock)
  show ?case
  proof (cases e)
    case (Some err)
    with Suc.prems r le1 show ?thesis by (auto simp: stock_def)
  next
    case None
    show ?thesis
    proof (cases "data = []")
      case True
      with Suc.prems r None
      have "fill_loop i (b\<lparr>unread := unread b @ data\<rparr>) c1 = (b', c')" by simp
      then have "stock b' c' \<le> stock (b\<lparr>unread := unread b @ data\<rparr>) c1" by (rule Suc.IH)
      with le1 show ?thesis by (simp add: stock_def)
    next
      case False
      with Suc.prems r None le1 show ?thesis by (auto simp: stock_def)
    qed
  qed
qed

lemma readLine_loop_stock:
  "readLine_loop acc b c = (Inr l, b', c') \<Longrightarrow> stock b' c' < stock b c"
proof (induction acc b c rule: readLine_loop.induct)
  case (1 acc b c)
  show ?case
  proof (cases "LF \<in> set (unread b)")
    case True
    then have "dropWhile (\<lambda>x. x \<noteq> LF) (unread b) \<noteq> []" by simp
    then have "length (tl (dropWhile (\<lambda>x. x \<noteq> LF) (unread b)))
        < length (dropWhile (\<lambda>x. x \<noteq> LF) (unread b))" by simp
    also have "\<dots> \<le> length (unread b)" by (rule length_dropWhile_le)
    finally have "length (tl (dropWhile (\<lambda>x. x \<noteq> LF) (unread b))) < length (unread b)" .
    with True "1.prems" show ?thesis
      by (auto simp: readLine_loop.simps [of acc b c] stock_def)
  next
    case noLF: False
    show ?thesis
    proof (cases "rerr b \<noteq> None")
      case True
      with noLF "1.prems" show ?thesis
        by (auto simp: readLine_loop.simps [of acc b c] stock_def split: if_splits)
    next
      case noErr: False
      show ?thesis
      proof (cases "defaultBufSize \<le> length (unread b)")
        case full: True
        then have ne: "unread b \<noteq> []" by (auto simp: defaultBufSize_def)
        show ?thesis
        proof (cases "last (unread b) = CR")
          case True
          with noLF noErr full "1.prems"
          have "readLine_loop (acc @ butlast (unread b)) (b\<lparr>unread := [CR]\<rparr>) c = (Inr l, b', c')"
            by (simp add: readLine_loop.simps [of acc b c])
          with "1.IH"(1) noLF noErr full True
          have "stock b' c' < stock (b\<lparr>unread := [CR]\<rparr>) c" by simp
          with full show ?thesis by (simp add: stock_def defaultBufSize_def)
        next
          case False
          with noLF noErr full "1.prems"
          have "readLine_loop (acc @ unread b) (b\<lparr>unread := []\<rparr>) c = (Inr l, b', c')"
            by (simp add: readLine_loop.simps [of acc b c])
          with "1.IH"(2) noLF noErr full False
          have "stock b' c' < stock (b\<lparr>unread := []\<rparr>) c" by simp
          then show ?thesis by (simp add: stock_def)
        qed
      next
        case notfull: False
        obtain b1 c1 where f: "fill b c = (b1, c1)" by (metis prod.exhaust)
        with noLF noErr notfull "1.prems"
        have "readLine_loop acc b1 c1 = (Inr l, b', c')"
          by (simp add: readLine_loop.simps [of acc b c])
        with "1.IH"(3) noLF noErr notfull f
        have "stock b' c' < stock b1 c1" by simp
        moreover have "stock b1 c1 \<le> stock b c"
          using f by (simp add: fill_def fill_loop_stock)
        ultimately show ?thesis by simp
      qed
    qed
  qed
qed

function readHeaderLines ::
  "string list \<Rightarrow> bufio_Reader \<Rightarrow> conn \<Rightarrow> (error + string list) \<times> bufio_Reader \<times> conn" where
  "readHeaderLines hs b c =
     (case readLine b c of
        (Inl err, b', c') \<Rightarrow> (Inl err, b', c')
      | (Inr l, b', c') \<Rightarrow>
          if length l = 0 then (Inr hs, b', c') else readHeaderLines (hs @ [l]) b' c')"
  by pat_completeness auto
termination
proof (relation "measure (\<lambda>(hs, b, c). stock b c)", goal_cases)
  case 1
  show ?case by simp
next
  case (2 hs b c x y l b' c')
  then have "readLine_loop [] b c = (Inr l, b', c')" by (simp add: readLine_def)
  then have "stock b' c' < stock b c" by (rule readLine_loop_stock)
  with 2(3) [symmetric] show ?case by simp
qed

declare readHeaderLines.simps [simp del]

section \<open>The HTTP response\<close>

text \<open>
  The parts of \<open>net/http\<close> (standard library) that the handshake calls. What the
  library decides on its own is a parameter: the bytes \<open>Request.Write\<close> sends for
  the CONNECT request of a target (or the error it reports before it sends anything),
  whether \<open>ParseHTTPVersion\<close> accepts a protocol string, and whether the header block is
  rejected (by \<open>ReadMIMEHeader\<close> or by the transfer checks that follow it).

  \<open>ReadResponse\<close> reads the status line and then header lines up to the first empty
  line, through the buffered reader; it reads nothing after the empty line. \<open>Status\<close> is
  the status text after the protocol (code and reason phrase, as \<open>"407 Proxy
  Authentication Required"\<close>), \<open>StatusCode\<close> its three-digit code.
\<close>

record httplib =
  requestBytes :: "string \<Rightarrow> error + string"
  versionOK :: "string \<Rightarrow> bool"
  headerErr :: "string list \<Rightarrow> error option"

record Response =
  Status :: string
  StatusCode :: int
  Proto :: string

definition badStringError :: "string \<Rightarrow> string \<Rightarrow> error" where
  "badStringError what v = Error (what @ '' '' @ v)"

definition parseStatusLine :: "httplib \<Rightarrow> string \<Rightarrow> error + Response" where
  "parseStatusLine lib line =
     (if SP \<notin> set line then Inl (badStringError ''malformed HTTP response'' line)
      else
        (let proto = takeWhile (\<lambda>x. x \<noteq> SP) line;
             status = dropWhile (\<lambda>x. x = SP) (tl (dropWhile (\<lambda>x. x \<noteq> SP) line));
             statusCode = takeWhile (\<lambda>x. x \<noteq> SP) status
         in if length statusCode \<noteq> 3
            then Inl (badStringError ''malformed HTTP status code'' statusCode)
            else
              (case Atoi statusCode of
                 Inl err \<Rightarrow> Inl (badStringError ''malformed HTTP status code'' statusCode)
               | Inr code \<Rightarrow>
                   if code < 0
                   then Inl (badStringError ''malformed HTTP status code'' statusCode)
                   else if \<not> versionOK lib proto
                   then Inl (badStringError ''malformed HTTP version'' proto)
                   else Inr \<lparr>Status = status, StatusCode = code, Proto = proto\<rparr>)))"

definition unexpectedEOF :: "error \<Rightarrow> error" where
  "unexpectedEOF err = (if err = EOF then ErrUnexpectedEOF else err)"

definition ReadResponse ::
  "httplib \<Rightarrow> bufio_Reader \<Rightarrow> conn \<Rightarrow> (error + Response) \<times> bufio_Reader \<times> conn" where
  "ReadResponse lib b c =
     (case readLine b c of
        (Inl err, b1, c1) \<Rightarrow> (Inl (unexpectedEOF err), b1, c1)
      | (Inr line, b1, c1) \<Rightarrow>
          (case parseStatusLine lib line of
             Inl err \<Rightarrow> (Inl err, b1, c1)
           | Inr resp \<Rightarrow>
               (case readHeaderLines [] b1 c1 of
                  (Inl err, b2, c2) \<Rightarrow> (Inl (unexpectedEOF err), b2, c2)
                | (Inr hs, b2, c2) \<Rightarrow>
                    (case headerErr lib hs of
                       Some err \<Rightarrow> (Inl err, b2, c2)
                     | None \<Rightarrow> (Inr resp, b2, c2)))))"

definition Request_Write :: "httplib \<Rightarrow> string \<Rightarrow> conn \<Rightarrow> error option \<times> conn" where
  "Request_Write lib target c =
     (case requestBytes lib target of
        Inl err \<Rightarrow> (Some err, c)
      | Inr bs \<Rightarrow> conn_Write bs c)"

section \<open>bufferedConn\<close>

text \<open>
  A \<open>bufferedConn\<close> embeds the connection and holds the reader of the handshake. The
  values of the interface \<open>net.Conn\<close> that \<open>connect\<close> and \<open>Dial\<close> return are either the
  raw connection or a \<open>bufferedConn\<close>; every method but \<open>Read\<close> is the embedded
  connection's.
\<close>

record bufferedConn =
  Conn :: conn
  reader :: bufio_Reader

definition bufferedConn_Read ::
  "nat \<Rightarrow> bufferedConn \<Rightarrow> (string \<times> error option) \<times> bufferedConn" where
  "bufferedConn_Read n bc =
     (if 0 < Buffered (reader bc) then
        (case bufio_Read n (reader bc) (Conn bc) of
           (r, b', c') \<Rightarrow> (r, \<lparr>Conn = c', reader = b'\<rparr>))
      else
        (case conn_Read n (Conn bc) of
           (r, c') \<Rightarrow> (r, bc\<lparr>Conn := c'\<rparr>)))"

datatype net_Conn = Raw conn | Wrapped bufferedConn

definition Read :: "nat \<Rightarrow> net_Conn \<Rightarrow> (string \<times> error option) \<times> net_Conn" where
  "Read n nc =
     (case nc of
        Raw c \<Rightarrow> (case conn_Read n c of (r, c') \<Rightarrow> (r, Raw c'))
      | Wrapped bc \<Rightarrow> (case bufferedConn_Read n bc of (r, bc') \<Rightarrow> (r, Wrapped bc')))"

definition Close :: "net_Conn \<Rightarrow> error option \<times> net_Conn" where
  "Close nc =
     (case nc of
        Raw c \<Rightarrow> (case conn_Close c of (e, c') \<Rightarrow> (e, Raw c'))
      | Wrapped bc \<Rightarrow> (case conn_Close (Conn bc) of (e, c') \<Rightarrow> (e, Wrapped (bc\<lparr>Conn := c'\<rparr>))))"

definition rawConn :: "net_Conn \<Rightarrow> conn" where
  "rawConn nc = (case nc of Raw c \<Rightarrow> c | Wrapped bc \<Rightarrow> Conn bc)"

section \<open>connect and Dial\<close>

text \<open>
  \<open>connect\<close> returns a connection together with the error, as the source does.
\<close>

definition connect :: "httplib \<Rightarrow> httpProxy \<Rightarrow> conn \<Rightarrow> string \<Rightarrow> net_Conn \<times> error option" where
  "connect lib s conn0 target =
     (case Request_Write lib target conn0 of
        (Some err, c1) \<Rightarrow> (Raw c1, Some err)
      | (None, c1) \<Rightarrow>
          (case ReadResponse lib NewReader c1 of
             (Inl err, br, c2) \<Rightarrow> (Raw c2, Some err)
           | (Inr resp, br, c2) \<Rightarrow>
               if StatusCode resp \<noteq> 200
               then (Raw c2, Some (Error (''unable to proxy connection: '' @ Status resp)))
               else (Wrapped \<lparr>Conn = c2, reader = br\<rparr>, None)))"

text \<open>
  \<open>Dial\<close>. The \<open>Dial\<close> method of the forward dialer is the parameter \<open>fdial\<close>, and
  \<open>clock k\<close> is what the \<open>k\<close>-th call of \<open>time.Now\<close> returns. The result is what the
  source returns (an error, or a connection) and, beside it, the state in which the call
  leaves the connection that the forward dialer opened (\<open>None\<close> when it opened none).
\<close>

definition Add :: "int \<Rightarrow> Duration \<Rightarrow> int" where
  "Add t d = t + sint d"

definition Dial ::
  "httplib \<Rightarrow> (Dialer \<Rightarrow> string \<Rightarrow> string \<Rightarrow> error + conn) \<Rightarrow> (nat \<Rightarrow> int) \<Rightarrow> httpProxy
     \<Rightarrow> string \<Rightarrow> string \<Rightarrow> (error + net_Conn) \<times> conn option" where
  "Dial lib fdial clock s network' addr' =
     (case fdial (forward s) (network s) (dialAddr s) of
        Inl err \<Rightarrow> (Inl err, None)
      | Inr conn0 \<Rightarrow>
          (case conn_SetDeadline (Add (clock 0) (timeout s)) conn0 of
             (Some err, c1) \<Rightarrow> (Inl err, Some (snd (conn_Close c1)))
           | (None, c1) \<Rightarrow>
               (case conn_SetReadDeadline (Add (clock 1) (timeout s)) c1 of
                  (Some err, c2) \<Rightarrow> (Inl err, Some (snd (conn_Close c2)))
                | (None, c2) \<Rightarrow>
                    (case conn_SetWriteDeadline (Add (clock 2) (timeout s)) c2 of
                       (Some err, c3) \<Rightarrow> (Inl err, Some (snd (conn_Close c3)))
                     | (None, c3) \<Rightarrow>
                         (case connect lib s c3 addr' of
                            (nc, Some err) \<Rightarrow> (Inl err, Some (rawConn (snd (Close nc))))
                          | (nc, None) \<Rightarrow> (Inr nc, Some (rawConn nc)))))))"

section \<open>Test doubles and the vocabulary of the properties\<close>

text \<open>An environment that sets only the lower-case name.\<close>

definition env_lower :: environ where
  "env_lower = [''ALL_PROXY'' \<mapsto> [], ''all_proxy'' \<mapsto> ''http://proxy:8080'']"

text \<open>Test doubles: a SOCKS5 factory and a registered factory that tag what they build.\<close>

definition socks5_double :: socks5 where
  "socks5_double network' addr' auth forward' timeout' = Inr (Foreign 5)"

definition factory_double :: factory where
  "factory_double u forward' timeout' = Inr (Foreign 7)"

definition url_double :: "string \<Rightarrow> URL" where
  "url_double scheme = \<lparr>Scheme = scheme, URL_User = None, Host = ''proxy:8080''\<rparr>"

text \<open>
  A test double for \<open>url.Parse\<close>: it reads \<open>scheme://host\<close> and rejects a string without a
  colon.
\<close>

definition parse_double :: "string \<Rightarrow> error + URL" where
  "parse_double s =
     (if CHR '':'' \<notin> set s then Inl (Error ''missing protocol scheme'')
      else Inr \<lparr>Scheme = takeWhile (\<lambda>x. x \<noteq> CHR '':'') s, URL_User = None,
                Host = drop 3 (dropWhile (\<lambda>x. x \<noteq> CHR '':'') s)\<rparr>)"

text \<open>Environments for the three ways to \<open>Direct\<close>.\<close>

definition env_unset :: environ where
  "env_unset = Map.empty"

definition env_unparsable :: environ where
  "env_unparsable = [''ALL_PROXY'' \<mapsto> ''proxy'']"

definition env_unknown :: environ where
  "env_unknown = [''ALL_PROXY'' \<mapsto> ''ftp://proxy:21'']"

definition env_500 :: environ where
  "env_500 = [''ALL_PROXY'' \<mapsto> ''http://proxy:8080'', ''TIMEOUT'' \<mapsto> ''500'']"

definition env_overflow :: environ where
  "env_overflow = [''ALL_PROXY'' \<mapsto> ''http://proxy:8080'', ''TIMEOUT'' \<mapsto> ''9223372036855'']"

text \<open>
  Test doubles: the library parameters of a plain HTTP/1.x peer, a fresh open connection
  that will deliver the given chunks, a clock, a proxy configuration and a forward dialer
  that refuses every dial with an error that quotes the network and address it was given.
\<close>

definition lib_double :: httplib where
  "lib_double =
     \<lparr>requestBytes =
        (\<lambda>t. Inr (''CONNECT '' @ t @ '' HTTP/1.1'' @ [CR, LF] @ ''Host: '' @ t @ [CR, LF, CR, LF])),
      versionOK = (\<lambda>v. v = ''HTTP/1.1'' \<or> v = ''HTTP/1.0''),
      headerErr =
        (\<lambda>hs. if list_all (\<lambda>h. CHR '':'' \<in> set h) hs then None
              else Some (Error ''malformed MIME header line''))\<rparr>"

definition conn_double :: "string list \<Rightarrow> conn" where
  "conn_double chunks =
     \<lparr>incoming = chunks, outgoing = [], closed = False, readDeadline = None,
      writeDeadline = None, setDeadlineErr = None, setReadDeadlineErr = None,
      setWriteDeadlineErr = None, writeErr = None\<rparr>"

definition clock_double :: "nat \<Rightarrow> int" where
  "clock_double k = 1000 + int k"

definition proxy_double :: httpProxy where
  "proxy_double = httpProxy ''u'' ''p'' ''tcp'' ''proxy:8080'' Direct 500000000"

definition refusing_dial :: "Dialer \<Rightarrow> string \<Rightarrow> string \<Rightarrow> error + conn" where
  "refusing_dial d network' addr' = Inl (Error (network' @ '' '' @ addr'))"

text \<open>A forward dialer whose connection refuses a read deadline.\<close>

definition failing_dial :: "Dialer \<Rightarrow> string \<Rightarrow> string \<Rightarrow> error + conn" where
  "failing_dial d network' addr' =
     Inr ((conn_double [])\<lparr>setReadDeadlineErr := Some (Error ''deadline not supported'')\<rparr>)"

text \<open>
  \<open>pending\<close> is what the reader and the connection still hold for the reader of the
  stream: the buffered bytes, then the chunks not yet delivered. A reader and a connection
  are \<open>steady\<close> when the connection is open, no chunk is empty (a read of a stream
  connection returns a byte or an error) and a pending read error means the end of the
  stream.
\<close>

definition pending :: "bufio_Reader \<Rightarrow> conn \<Rightarrow> string" where
  "pending b c = unread b @ concat (incoming c)"

definition steady :: "bufio_Reader \<Rightarrow> conn \<Rightarrow> bool" where
  "steady b c =
     (\<not> closed c \<and> [] \<notin> set (incoming c) \<and> (if rerr b = None then True else incoming c = []))"

text \<open>
  The bytes of a response head: the status line and the header lines, each ended by a
  line feed, and the line that ends the head (empty, or a carriage return) with its line
  feed.
\<close>

definition responseHead :: "string \<Rightarrow> string list \<Rightarrow> string \<Rightarrow> string" where
  "responseHead sl hls eoh = concat (map (\<lambda>l. l @ [LF]) (sl # hls)) @ eoh @ [LF]"

text \<open>Reading changes nothing of a connection but the chunks still to come.\<close>

definition reads_only :: "conn \<Rightarrow> conn \<Rightarrow> bool" where
  "reads_only c c' = (c' = c\<lparr>incoming := incoming c'\<rparr>)"

text \<open>A forward dialer whose connection answers 407.\<close>

definition dial_407 :: "Dialer \<Rightarrow> string \<Rightarrow> string \<Rightarrow> error + conn" where
  "dial_407 d network' addr' =
     Inr (conn_double [''HTTP/1.1 407 Proxy Authentication Required'' @ [CR, LF, CR, LF]])"

text \<open>The raw connection as \<open>connect\<close> returns it after the 407.\<close>

definition rejected_407 :: conn where
  "rejected_407 =
     \<lparr>incoming = [],
      outgoing =
        ''CONNECT example.com:443 HTTP/1.1'' @ [CR, LF]
          @ ''Host: example.com:443'' @ [CR, LF, CR, LF],
      closed = False, readDeadline = Some 500001001, writeDeadline = Some 500001002,
      setDeadlineErr = None, setReadDeadlineErr = None, setWriteDeadlineErr = None,
      writeErr = None\<rparr>"

text \<open>
  \<open>unreadBytes\<close> is what a connection still holds for its reader, \<open>Reads\<close> a caller
  that calls \<open>Read\<close> with buffers of the given sizes, one after the other, and keeps what
  it gets; a connection is \<open>live\<close> when its raw connection is open and has no empty
  chunk.
\<close>

definition unreadBytes :: "net_Conn \<Rightarrow> string" where
  "unreadBytes nc =
     (case nc of
        Raw c \<Rightarrow> concat (incoming c)
      | Wrapped bc \<Rightarrow> unread (reader bc) @ concat (incoming (Conn bc)))"

fun Reads :: "nat list \<Rightarrow> net_Conn \<Rightarrow> string \<times> net_Conn" where
  "Reads [] nc = ([], nc)"
| "Reads (n # ns) nc =
     (case Read n nc of
        ((data, e), nc') \<Rightarrow> (case Reads ns nc' of (rest, nc'') \<Rightarrow> (data @ rest, nc'')))"

definition live :: "net_Conn \<Rightarrow> bool" where
  "live nc = (\<not> closed (rawConn nc) \<and> [] \<notin> set (incoming (rawConn nc)))"

text \<open>
  A forward dialer whose connection answers 200 and goes on with \<open>hello world\<close>, five
  bytes of it in the chunk that ends the head; and the connection \<open>Dial\<close> returns for it.
\<close>

definition dial_200 :: "Dialer \<Rightarrow> string \<Rightarrow> string \<Rightarrow> error + conn" where
  "dial_200 d network' addr' =
     Inr (conn_double
            [''HTTP/1.1 200 OK'' @ [CR, LF],
             ''Via: proxy'' @ [CR, LF, CR, LF] @ ''hello'',
             '' world''])"

definition tunnel_200 :: net_Conn where
  "tunnel_200 =
     Wrapped
       \<lparr>Conn =
          \<lparr>incoming = ['' world''],
           outgoing =
             ''CONNECT example.com:443 HTTP/1.1'' @ [CR, LF]
               @ ''Host: example.com:443'' @ [CR, LF, CR, LF],
           closed = False, readDeadline = Some 500001001, writeDeadline = Some 500001002,
           setDeadlineErr = None, setReadDeadlineErr = None, setWriteDeadlineErr = None,
           writeErr = None\<rparr>,
        reader = \<lparr>unread = ''hello'', rerr = None\<rparr>\<rparr>"

section \<open>Properties of envOnce\<close>

lemma init_loop_val:
  "ns \<noteq> [] \<or> val e = [] \<Longrightarrow>
   val (init_loop env ns e) =
     (case find (\<lambda>n. Getenv env n \<noteq> []) ns of Some n \<Rightarrow> Getenv env n | None \<Rightarrow> [])"
proof (induction ns arbitrary: e)
  case Nil
  then show ?case by simp
next
  case (Cons n ns)
  show ?case
  proof (cases "Getenv env n = []")
    case True
    then have "val (init_loop env (n # ns) e) = val (init_loop env ns (e\<lparr>val := []\<rparr>))"
      by (simp add: Let_def)
    also have "\<dots> = (case find (\<lambda>n. Getenv env n \<noteq> []) ns of Some n \<Rightarrow> Getenv env n | None \<Rightarrow> [])"
      by (rule Cons.IH) simp
    finally show ?thesis using True by simp
  next
    case False
    then show ?thesis by (simp add: Let_def)
  qed
qed

lemma init_loop_names: "names (init_loop env ns e) = names e"
  by (induction ns arbitrary: e) (auto simp: Let_def)

text \<open>
  Claim C8. A first \<open>Get\<close> on an entry that is not yet resolved gives the value of the
  first name of its list whose variable is not empty, and the empty string when every
  variable is empty; the list of names stays as it is. For the three entries of the
  package the upper-case name is tried before the lower-case one.
\<close>

theorem envOnce_first_match:
  "(\<not> once e \<and> val e = [] \<longrightarrow>
      fst (Get env e) =
        (case find (\<lambda>n. Getenv env n \<noteq> []) (names e) of
           Some n \<Rightarrow> Getenv env n
         | None \<Rightarrow> [])
      \<and> names (snd (Get env e)) = names e)
   \<and> fst (Get env allProxyEnv_new) =
        (if Getenv env ''ALL_PROXY'' \<noteq> [] then Getenv env ''ALL_PROXY''
         else Getenv env ''all_proxy'')
   \<and> fst (Get env noProxyEnv_new) =
        (if Getenv env ''NO_PROXY'' \<noteq> [] then Getenv env ''NO_PROXY''
         else Getenv env ''no_proxy'')
   \<and> fst (Get env timeoutEnv_new) =
        (if Getenv env ''TIMEOUT'' \<noteq> [] then Getenv env ''TIMEOUT''
         else Getenv env ''timeout'')"
proof -
  have gen: "fst (Get env e) =
        (case find (\<lambda>n. Getenv env n \<noteq> []) (names e) of
           Some n \<Rightarrow> Getenv env n
         | None \<Rightarrow> [])
      \<and> names (snd (Get env e)) = names e" if "\<not> once e" "val e = []" for e
    using that by (simp add: Get_def init_def init_loop_val init_loop_names)
  have a: "fst (Get env allProxyEnv_new) =
        (if Getenv env ''ALL_PROXY'' \<noteq> [] then Getenv env ''ALL_PROXY''
         else Getenv env ''all_proxy'')"
    by (simp add: Get_def init_def allProxyEnv_new_def Let_def)
  have b: "fst (Get env noProxyEnv_new) =
        (if Getenv env ''NO_PROXY'' \<noteq> [] then Getenv env ''NO_PROXY''
         else Getenv env ''no_proxy'')"
    by (simp add: Get_def init_def noProxyEnv_new_def Let_def)
  have c: "fst (Get env timeoutEnv_new) =
        (if Getenv env ''TIMEOUT'' \<noteq> [] then Getenv env ''TIMEOUT''
         else Getenv env ''timeout'')"
    by (simp add: Get_def init_def timeoutEnv_new_def Let_def)
  from gen a b c show ?thesis by blast
qed

theorem envOnce_first_match_witness:
  "\<not> once allProxyEnv_new \<and> val allProxyEnv_new = []
   \<and> fst (Get env_lower allProxyEnv_new) = ''http://proxy:8080''
   \<and> fst (Get env_lower timeoutEnv_new) = []"
  using envOnce_first_match [of allProxyEnv_new env_lower]
  by (simp add: allProxyEnv_new_def env_lower_def Getenv_def)

section \<open>Properties of FromURL\<close>

text \<open>
  Claim C4. \<open>FromURL\<close> gives a URL of scheme \<open>socks5\<close> to the SOCKS5 factory and one of
  scheme \<open>http\<close> or \<open>https\<close> to \<open>HTTPProxyDialer\<close>, whatever the registry holds. For any
  other scheme it calls the factory registered under that scheme, and when there is none
  (the registry is nil or has no entry) it fails with the message
  \<open>proxy: unknown scheme:\<close> followed by the scheme.
\<close>

theorem FromURL_dispatch:
  "(Scheme u = ''socks5'' \<longrightarrow>
      FromURL SOCKS5 reg u fwd t = SOCKS5 ''tcp'' (Host u) (authFromURL u) fwd t)
   \<and> (Scheme u = ''http'' \<or> Scheme u = ''https'' \<longrightarrow>
      FromURL SOCKS5 reg u fwd t = HTTPProxyDialer ''tcp'' (Host u) (authFromURL u) fwd t)
   \<and> (Scheme u \<noteq> ''socks5'' \<and> Scheme u \<noteq> ''http'' \<and> Scheme u \<noteq> ''https'' \<longrightarrow>
        (\<forall>m f. reg = Some m \<and> m (Scheme u) = Some f \<longrightarrow>
           FromURL SOCKS5 reg u fwd t = f u fwd t)
      \<and> (reg = None \<or> (\<exists>m. reg = Some m \<and> m (Scheme u) = None) \<longrightarrow>
           FromURL SOCKS5 reg u fwd t = Inl (Error (''proxy: unknown scheme: '' @ Scheme u))))"
  by (auto simp: FromURL_def)

theorem FromURL_dispatch_witness:
  "FromURL socks5_double (RegisterDialerType ''quic'' factory_double None) (url_double ''socks5'')
       Direct 5 = Inr (Foreign 5)
   \<and> FromURL socks5_double (RegisterDialerType ''quic'' factory_double None) (url_double ''https'')
       Direct 5 = Inr (HTTPProxy (httpProxy [] [] ''tcp'' ''proxy:8080'' Direct 5))
   \<and> FromURL socks5_double (RegisterDialerType ''quic'' factory_double None) (url_double ''quic'')
       Direct 5 = Inr (Foreign 7)
   \<and> FromURL socks5_double (RegisterDialerType ''quic'' factory_double None) (url_double ''ftp'')
       Direct 5 = Inl (Error ''proxy: unknown scheme: ftp'')"
proof -
  let ?reg = "RegisterDialerType ''quic'' factory_double None"
  have r: "?reg = Some [''quic'' \<mapsto> factory_double]"
    by (simp add: RegisterDialerType_def)
  have 1: "FromURL socks5_double ?reg (url_double ''socks5'') Direct 5 = Inr (Foreign 5)"
    using FromURL_dispatch [of "url_double ''socks5''" socks5_double ?reg Direct 5]
    by (simp add: url_double_def socks5_double_def)
  have 2: "FromURL socks5_double ?reg (url_double ''https'') Direct 5
      = Inr (HTTPProxy (httpProxy [] [] ''tcp'' ''proxy:8080'' Direct 5))"
    using FromURL_dispatch [of "url_double ''https''" socks5_double ?reg Direct 5]
    by (simp add: url_double_def HTTPProxyDialer_def authFromURL_def)
  have 3: "FromURL socks5_double ?reg (url_double ''quic'') Direct 5 = Inr (Foreign 7)"
    using FromURL_dispatch [of "url_double ''quic''" socks5_double ?reg Direct 5]
    by (simp add: r url_double_def factory_double_def)
  have 4: "FromURL socks5_double ?reg (url_double ''ftp'') Direct 5
      = Inl (Error ''proxy: unknown scheme: ftp'')"
    using FromURL_dispatch [of "url_double ''ftp''" socks5_double ?reg Direct 5]
    by (simp add: r url_double_def)
  from 1 2 3 4 show ?thesis by simp
qed

text \<open>
  Claim C10. For a URL whose scheme is built in, the result of \<open>FromURL\<close> does not
  depend on the registry at all; so a factory registered under \<open>http\<close>, \<open>https\<close> or
  \<open>socks5\<close> is never called for such a URL, and registering it changes nothing.
\<close>

theorem builtin_scheme_ignores_registry:
  "Scheme u = ''http'' \<or> Scheme u = ''https'' \<or> Scheme u = ''socks5'' \<Longrightarrow>
     FromURL SOCKS5 reg u fwd t = FromURL SOCKS5 reg' u fwd t
     \<and> FromURL SOCKS5 (RegisterDialerType (Scheme u) f reg) u fwd t = FromURL SOCKS5 reg u fwd t"
  by (auto simp: FromURL_def)

theorem builtin_scheme_ignores_registry_witness:
  "FromURL socks5_double (RegisterDialerType ''http'' factory_double None) (url_double ''http'')
       Direct 5
     = Inr (HTTPProxy (httpProxy [] [] ''tcp'' ''proxy:8080'' Direct 5))
   \<and> FromURL socks5_double None (url_double ''http'') Direct 5
     = Inr (HTTPProxy (httpProxy [] [] ''tcp'' ''proxy:8080'' Direct 5))"
proof -
  have s: "Scheme (url_double ''http'') = ''http''" by (simp add: url_double_def)
  have "FromURL socks5_double None (url_double ''http'') Direct 5
     = Inr (HTTPProxy (httpProxy [] [] ''tcp'' ''proxy:8080'' Direct 5))"
    by (simp add: FromURL_def url_double_def HTTPProxyDialer_def authFromURL_def)
  with builtin_scheme_ignores_registry
         [of "url_double ''http''" socks5_double None Direct 5 None factory_double]
  show ?thesis by (simp add: s)
qed

section \<open>Properties of FromEnvironment\<close>

lemma Millisecond_sint:
  assumes "- 9223372036854 \<le> v" and "v \<le> 9223372036854"
  shows "sint (Millisecond * word_of_int v :: Duration) = 1000000 * v"
proof -
  have "Millisecond * word_of_int v = (word_of_int (1000000 * v) :: Duration)"
    by (simp add: Millisecond_def)
  moreover have "signed_take_bit (63::nat) (1000000 * v) = 1000000 * v"
    using assms by (intro signed_take_bit_int_eq_self) simp_all
  then have "sint (word_of_int (1000000 * v) :: Duration) = 1000000 * v"
    by (simp only: sint_sbintrunc') simp
  ultimately show ?thesis by (simp only:)
qed

lemma FromEnvironment_unfold:
  "fst (FromEnvironment P S env g) =
     (let allProxy = fst (Get env (allProxyEnv g))
      in if allProxy = [] then Direct
         else
           (case P allProxy of
              Inl err \<Rightarrow> Direct
            | Inr proxyURL \<Rightarrow>
                (case FromURL S (proxySchemes g) proxyURL Direct
                        (Millisecond * word_of_int (timeoutMillis (fst (Get env (timeoutEnv g))))) of
                   Inl err \<Rightarrow> Direct
                 | Inr proxy \<Rightarrow>
                     (let noProxy = fst (Get env (noProxyEnv g))
                      in if noProxy = [] then proxy else PerHost proxy Direct noProxy))))"
  by (simp add: FromEnvironment_def Let_def case_prod_beta split: sum.splits)

text \<open>
  Claim C3. \<open>FromEnvironment\<close> has no error result; it returns \<open>Direct\<close> when the
  all-proxy value is empty, when that value does not parse as a URL, and when
  \<open>FromURL\<close> fails for the parsed URL. With the entries unresolved and neither
  \<open>ALL_PROXY\<close> nor \<open>all_proxy\<close> set, the all-proxy value is empty.
\<close>

theorem FromEnvironment_degrades_to_Direct:
  "(fst (Get env (allProxyEnv g)) = [] \<longrightarrow> fst (FromEnvironment P S env g) = Direct)
   \<and> (\<forall>err. P (fst (Get env (allProxyEnv g))) = Inl err \<longrightarrow>
         fst (FromEnvironment P S env g) = Direct)
   \<and> (\<forall>u err. P (fst (Get env (allProxyEnv g))) = Inr u
          \<and> FromURL S (proxySchemes g) u Direct
               (Millisecond * word_of_int (timeoutMillis (fst (Get env (timeoutEnv g))))) = Inl err
        \<longrightarrow> fst (FromEnvironment P S env g) = Direct)
   \<and> (Getenv env ''ALL_PROXY'' = [] \<and> Getenv env ''all_proxy'' = [] \<longrightarrow>
         fst (FromEnvironment P S env globals_new) = Direct)"
proof -
  have "fst (Get env (allProxyEnv globals_new)) = []"
    if "Getenv env ''ALL_PROXY'' = []" "Getenv env ''all_proxy'' = []"
    using that by (simp add: globals_new_def allProxyEnv_new_def Get_def init_def Let_def)
  then show ?thesis
    by (auto simp: FromEnvironment_unfold Let_def)
qed

theorem FromEnvironment_degrades_to_Direct_witness:
  "fst (FromEnvironment parse_double socks5_double env_unset globals_new) = Direct
   \<and> fst (FromEnvironment parse_double socks5_double env_unparsable globals_new) = Direct
   \<and> fst (FromEnvironment parse_double socks5_double env_unknown globals_new) = Direct"
proof -
  have g: "fst (Get env_unparsable (allProxyEnv globals_new)) = ''proxy''"
    "fst (Get env_unknown (allProxyEnv globals_new)) = ''ftp://proxy:21''"
    "proxySchemes globals_new = None"
    by (simp_all add: globals_new_def allProxyEnv_new_def Get_def init_def Let_def
          env_unparsable_def env_unknown_def Getenv_def)
  have 1: "fst (FromEnvironment parse_double socks5_double env_unset globals_new) = Direct"
    using FromEnvironment_degrades_to_Direct [of env_unset globals_new parse_double socks5_double]
    by (simp add: env_unset_def Getenv_def)
  have 2: "fst (FromEnvironment parse_double socks5_double env_unparsable globals_new) = Direct"
    using FromEnvironment_degrades_to_Direct
            [of env_unparsable globals_new parse_double socks5_double]
    by (simp add: g parse_double_def)
  have 3: "fst (FromEnvironment parse_double socks5_double env_unknown globals_new) = Direct"
    using FromEnvironment_degrades_to_Direct
            [of env_unknown globals_new parse_double socks5_double]
    by (simp add: g parse_double_def FromURL_def)
  from 1 2 3 show ?thesis by simp
qed

text \<open>
  Claim C6, as amended. The local \<open>timeout\<close> of \<open>FromEnvironment\<close> is the integer the
  timeout variable's string parses to, and 1000 when the string is empty or does not
  parse; this many milliseconds are handed to \<open>FromURL\<close> as a \<open>time.Duration\<close>. The
  duration is that number of milliseconds when the count of nanoseconds fits the 64 bits
  of \<open>time.Duration\<close>, which it does between -9223372036854 and 9223372036854
  milliseconds.
\<close>

theorem FromEnvironment_timeout:
  "timeoutMillis ts = (if ts = [] then 1000 else (case Atoi ts of Inl err \<Rightarrow> 1000 | Inr v \<Rightarrow> v))
   \<and> (- 9223372036854 \<le> timeoutMillis ts \<and> timeoutMillis ts \<le> 9223372036854 \<longrightarrow>
        sint (Millisecond * word_of_int (timeoutMillis ts) :: Duration) = 1000000 * timeoutMillis ts)
   \<and> (\<forall>u. fst (Get env (allProxyEnv g)) \<noteq> [] \<and> P (fst (Get env (allProxyEnv g))) = Inr u \<longrightarrow>
        fst (FromEnvironment P S env g) =
          (case FromURL S (proxySchemes g) u Direct
                  (Millisecond * word_of_int (timeoutMillis (fst (Get env (timeoutEnv g))))) of
             Inl err \<Rightarrow> Direct
           | Inr proxy \<Rightarrow>
               if fst (Get env (noProxyEnv g)) = [] then proxy
               else PerHost proxy Direct (fst (Get env (noProxyEnv g)))))"
proof -
  have "Atoi ''1000'' = Inr 1000"
    by (simp add: Atoi_def isDigit_def decimal_def digitVal_def)
  then have 1: "timeoutMillis ts
      = (if ts = [] then 1000 else (case Atoi ts of Inl err \<Rightarrow> 1000 | Inr v \<Rightarrow> v))"
    by (simp add: timeoutMillis_def)
  have 2: "- 9223372036854 \<le> timeoutMillis ts \<and> timeoutMillis ts \<le> 9223372036854 \<longrightarrow>
        sint (Millisecond * word_of_int (timeoutMillis ts) :: Duration) = 1000000 * timeoutMillis ts"
    using Millisecond_sint by blast
  have 3: "\<forall>u. fst (Get env (allProxyEnv g)) \<noteq> [] \<and> P (fst (Get env (allProxyEnv g))) = Inr u \<longrightarrow>
        fst (FromEnvironment P S env g) =
          (case FromURL S (proxySchemes g) u Direct
                  (Millisecond * word_of_int (timeoutMillis (fst (Get env (timeoutEnv g))))) of
             Inl err \<Rightarrow> Direct
           | Inr proxy \<Rightarrow>
               if fst (Get env (noProxyEnv g)) = [] then proxy
               else PerHost proxy Direct (fst (Get env (noProxyEnv g))))"
    by (simp add: FromEnvironment_unfold Let_def split: sum.splits)
  from 1 2 3 show ?thesis by blast
qed

lemma Atoi_500: "Atoi ''500'' = Inr 500"
  by (simp add: Atoi_def isDigit_def decimal_def digitVal_def)

lemma Atoi_overflow: "Atoi ''9223372036855'' = Inr 9223372036855"
  by (simp add: Atoi_def isDigit_def decimal_def digitVal_def)

theorem FromEnvironment_timeout_witness:
  "timeoutMillis ''500'' = 500
   \<and> sint (Millisecond * word_of_int (timeoutMillis ''500'') :: Duration) = 500000000
   \<and> fst (FromEnvironment parse_double socks5_double env_500 globals_new)
       = HTTPProxy (httpProxy [] [] ''tcp'' ''proxy:8080'' Direct 500000000)"
proof -
  have g: "fst (Get env_500 (allProxyEnv globals_new)) = ''http://proxy:8080''"
    "fst (Get env_500 (timeoutEnv globals_new)) = ''500''"
    "fst (Get env_500 (noProxyEnv globals_new)) = []"
    "proxySchemes globals_new = None"
    by (simp_all add: globals_new_def allProxyEnv_new_def timeoutEnv_new_def noProxyEnv_new_def
          Get_def init_def Let_def env_500_def Getenv_def)
  have p: "parse_double ''http://proxy:8080''
      = Inr \<lparr>Scheme = ''http'', URL_User = None, Host = ''proxy:8080''\<rparr>"
    by (simp add: parse_double_def)
  have t: "timeoutMillis ''500'' = 500"
    using FromEnvironment_timeout [of "''500''"] by (simp add: Atoi_500)
  have s: "sint (Millisecond * word_of_int (timeoutMillis ''500'') :: Duration) = 500000000"
    using FromEnvironment_timeout [of "''500''"] by (simp add: t)
  have "fst (FromEnvironment parse_double socks5_double env_500 globals_new)
       = HTTPProxy (httpProxy [] [] ''tcp'' ''proxy:8080'' Direct 500000000)"
    using FromEnvironment_timeout [of "''500''" env_500 globals_new parse_double socks5_double]
    by (simp add: g p t FromURL_def HTTPProxyDialer_def authFromURL_def Millisecond_def)
  with t s show ?thesis by simp
qed

text \<open>
  The claim as stated fails for a large value: 9223372036855 milliseconds parse, but as
  nanoseconds they do not fit 64 bits, and the duration wraps to a negative one.
\<close>

theorem FromEnvironment_timeout_counterexample:
  "Atoi ''9223372036855'' = Inr 9223372036855
   \<and> (case fst (FromEnvironment parse_double socks5_double env_overflow globals_new) of
         HTTPProxy s \<Rightarrow> sint (timeout s)
       | _ \<Rightarrow> 0) = - 9223372036854551616"
proof -
  have g: "fst (Get env_overflow (allProxyEnv globals_new)) = ''http://proxy:8080''"
    "fst (Get env_overflow (timeoutEnv globals_new)) = ''9223372036855''"
    "fst (Get env_overflow (noProxyEnv globals_new)) = []"
    "proxySchemes globals_new = None"
    by (simp_all add: globals_new_def allProxyEnv_new_def timeoutEnv_new_def noProxyEnv_new_def
          Get_def init_def Let_def env_overflow_def Getenv_def)
  have p: "parse_double ''http://proxy:8080''
      = Inr \<lparr>Scheme = ''http'', URL_User = None, Host = ''proxy:8080''\<rparr>"
    by (simp add: parse_double_def)
  have t: "timeoutMillis ''9223372036855'' = 9223372036855"
    by (simp add: timeoutMillis_def Atoi_overflow)
  have w: "sint (Millisecond * word_of_int 9223372036855 :: Duration) = - 9223372036854551616"
    by (simp add: Millisecond_def)
  have "fst (FromEnvironment parse_double socks5_double env_overflow globals_new)
       = HTTPProxy (httpProxy [] [] ''tcp'' ''proxy:8080'' Direct
           (Millisecond * word_of_int 9223372036855))"
    by (simp add: FromEnvironment_unfold g p t FromURL_def HTTPProxyDialer_def authFromURL_def)
  with w Atoi_overflow show ?thesis by simp
qed

section \<open>Properties of Dial\<close>

text \<open>
  Claim C5. The address that \<open>Dial\<close> hands to the forward dialer is \<open>dialAddr\<close>: the
  bare proxy address without a user, \<open>user@addr\<close> with a user and no password, and
  \<open>user:password@addr\<close> with both. The forward dialer is called with the proxy's network
  and this address and with nothing else: its error there is the result of \<open>Dial\<close>, and
  two forward dialers that agree there give the same \<open>Dial\<close>.
\<close>

theorem dialAddr_composition:
  "(user s = [] \<longrightarrow> dialAddr s = addr s)
   \<and> (user s \<noteq> [] \<and> password s = [] \<longrightarrow> dialAddr s = user s @ ''@'' @ addr s)
   \<and> (user s \<noteq> [] \<and> password s \<noteq> [] \<longrightarrow>
        dialAddr s = user s @ '':'' @ password s @ ''@'' @ addr s)
   \<and> (\<forall>err. fdial (forward s) (network s) (dialAddr s) = Inl err \<longrightarrow>
        Dial lib fdial clock s nw target = (Inl err, None))
   \<and> (\<forall>fdial'. fdial' (forward s) (network s) (dialAddr s)
                  = fdial (forward s) (network s) (dialAddr s) \<longrightarrow>
        Dial lib fdial' clock s nw target = Dial lib fdial clock s nw target)"
  by (simp add: dialAddr_def Dial_def)

theorem dialAddr_composition_witness:
  "Dial lib_double refusing_dial clock_double proxy_double ''tcp'' ''example.com:443''
     = (Inl (Error ''tcp u:p@proxy:8080''), None)
   \<and> Dial lib_double refusing_dial clock_double
        (httpProxy ''u'' [] ''tcp'' ''proxy:8080'' Direct 5) ''tcp'' ''example.com:443''
     = (Inl (Error ''tcp u@proxy:8080''), None)
   \<and> Dial lib_double refusing_dial clock_double
        (httpProxy [] [] ''tcp'' ''proxy:8080'' Direct 5) ''tcp'' ''example.com:443''
     = (Inl (Error ''tcp proxy:8080''), None)"
proof -
  have 1: "Dial lib_double refusing_dial clock_double proxy_double ''tcp'' ''example.com:443''
     = (Inl (Error ''tcp u:p@proxy:8080''), None)"
    using dialAddr_composition
            [of proxy_double refusing_dial lib_double clock_double "''tcp''" "''example.com:443''"]
    by (simp add: proxy_double_def refusing_dial_def)
  have 2: "Dial lib_double refusing_dial clock_double
        (httpProxy ''u'' [] ''tcp'' ''proxy:8080'' Direct 5) ''tcp'' ''example.com:443''
     = (Inl (Error ''tcp u@proxy:8080''), None)"
    using dialAddr_composition
            [of "httpProxy ''u'' [] ''tcp'' ''proxy:8080'' Direct 5" refusing_dial lib_double
                clock_double "''tcp''" "''example.com:443''"]
    by (simp add: refusing_dial_def)
  have 3: "Dial lib_double refusing_dial clock_double
        (httpProxy [] [] ''tcp'' ''proxy:8080'' Direct 5) ''tcp'' ''example.com:443''
     = (Inl (Error ''tcp proxy:8080''), None)"
    using dialAddr_composition
            [of "httpProxy [] [] ''tcp'' ''proxy:8080'' Direct 5" refusing_dial lib_double
                clock_double "''tcp''" "''example.com:443''"]
    by (simp add: refusing_dial_def)
  from 1 2 3 show ?thesis by simp
qed

text \<open>
  Claim C9. With an empty user the password is not looked at: \<open>HTTPProxyDialer\<close> stores
  it, \<open>dialAddr\<close> is the bare proxy address, and \<open>Dial\<close> does exactly what it does for
  the same proxy without a password, so the forward dialer never sees the password.
\<close>

theorem empty_user_ignores_password:
  "HTTPProxyDialer nw a (Some \<lparr>User = [], Password = pw\<rparr>) fwd t
     = Inr (HTTPProxy (httpProxy [] pw nw a fwd t))
   \<and> dialAddr (httpProxy [] pw nw a fwd t) = a
   \<and> Dial lib fdial clock (httpProxy [] pw nw a fwd t) n target
     = Dial lib fdial clock (httpProxy [] [] nw a fwd t) n target"
proof -
  have c: "connect lib (httpProxy [] pw nw a fwd t) c3 target
      = connect lib (httpProxy [] [] nw a fwd t) c3 target" for c3
    by (simp add: connect_def)
  show ?thesis
    by (simp add: HTTPProxyDialer_def dialAddr_def Dial_def c
          split: sum.splits prod.splits option.splits)
qed

theorem empty_user_ignores_password_witness:
  "Dial lib_double refusing_dial clock_double
        (httpProxy [] ''secret'' ''tcp'' ''proxy:8080'' Direct 5) ''tcp'' ''example.com:443''
     = (Inl (Error ''tcp proxy:8080''), None)"
proof -
  have "Dial lib_double refusing_dial clock_double
        (httpProxy [] [] ''tcp'' ''proxy:8080'' Direct 5) ''tcp'' ''example.com:443''
     = (Inl (Error ''tcp proxy:8080''), None)"
    by (simp add: Dial_def dialAddr_def refusing_dial_def)
  with empty_user_ignores_password
         [of "''tcp''" "''proxy:8080''" "''secret''" Direct 5 lib_double refusing_dial
             clock_double "''tcp''" "''example.com:443''"]
  show ?thesis by simp
qed

lemma closed_conn_Close: "closed (snd (conn_Close c))"
  by (simp add: conn_Close_def)

text \<open>
  Claim C7. When one of the three deadline calls fails, \<open>Dial\<close> returns that error and
  no connection, and it leaves the raw connection closed.
\<close>

theorem deadline_failure_closes:
  assumes "fdial (forward s) (network s) (dialAddr s) = Inr c0"
  shows
    "(\<forall>err c1. conn_SetDeadline (Add (clock 0) (timeout s)) c0 = (Some err, c1) \<longrightarrow>
        fst (Dial lib fdial clock s nw target) = Inl err
        \<and> map_option closed (snd (Dial lib fdial clock s nw target)) = Some True)
     \<and> (\<forall>err c1 c2. conn_SetDeadline (Add (clock 0) (timeout s)) c0 = (None, c1)
          \<and> conn_SetReadDeadline (Add (clock 1) (timeout s)) c1 = (Some err, c2) \<longrightarrow>
        fst (Dial lib fdial clock s nw target) = Inl err
        \<and> map_option closed (snd (Dial lib fdial clock s nw target)) = Some True)
     \<and> (\<forall>err c1 c2 c3. conn_SetDeadline (Add (clock 0) (timeout s)) c0 = (None, c1)
          \<and> conn_SetReadDeadline (Add (clock 1) (timeout s)) c1 = (None, c2)
          \<and> conn_SetWriteDeadline (Add (clock 2) (timeout s)) c2 = (Some err, c3) \<longrightarrow>
        fst (Dial lib fdial clock s nw target) = Inl err
        \<and> map_option closed (snd (Dial lib fdial clock s nw target)) = Some True)"
  using assms by (simp add: Dial_def closed_conn_Close)

theorem deadline_failure_closes_witness:
  "fst (Dial lib_double failing_dial clock_double proxy_double ''tcp'' ''example.com:443'')
     = Inl (Error ''deadline not supported'')
   \<and> map_option closed
        (snd (Dial lib_double failing_dial clock_double proxy_double ''tcp'' ''example.com:443''))
     = Some True"
  using deadline_failure_closes
          [of failing_dial proxy_double
              "(conn_double [])\<lparr>setReadDeadlineErr := Some (Error ''deadline not supported'')\<rparr>"
              clock_double lib_double "''tcp''" "''example.com:443''"]
  by (simp add: failing_dial_def conn_double_def conn_SetDeadline_def conn_SetReadDeadline_def)

section \<open>The byte stream through the handshake\<close>

lemma first_LF_unique:
  "a @ LF # b = c @ LF # d \<Longrightarrow> LF \<notin> set a \<Longrightarrow> LF \<notin> set c \<Longrightarrow> a = c \<and> b = d"
proof (induction a arbitrary: c)
  case Nil
  then show ?case by (cases c) auto
next
  case (Cons x a)
  then show ?case by (cases c) auto
qed

lemma split_before_LF:
  "xs @ ys = raw @ LF # rest \<Longrightarrow> LF \<notin> set xs \<Longrightarrow>
     \<exists>raw2. raw = xs @ raw2 \<and> ys = raw2 @ LF # rest"
proof (induction xs arbitrary: raw)
  case Nil
  then show ?case by simp
next
  case (Cons x xs)
  then show ?case by (cases raw) auto
qed

lemma first_LF_in_buffer:
  assumes "LF \<in> set u" and "u @ ys = raw @ LF # rest" and "LF \<notin> set raw"
  shows "takeWhile (\<lambda>x. x \<noteq> LF) u = raw \<and> tl (dropWhile (\<lambda>x. x \<noteq> LF) u) @ ys = rest"
proof -
  let ?t = "takeWhile (\<lambda>x. x \<noteq> LF) u" and ?d = "dropWhile (\<lambda>x. x \<noteq> LF) u"
  from assms(1) have "?d \<noteq> []" by simp
  moreover from this have "hd ?d = LF" using hd_dropWhile [of "\<lambda>x. x \<noteq> LF" u] by simp
  ultimately have d: "?d = LF # tl ?d" by (cases ?d) auto
  have "u = ?t @ ?d" by simp
  with d have "u = ?t @ LF # tl ?d" by simp
  with assms(2) have "?t @ LF # (tl ?d @ ys) = raw @ LF # rest"
    by (metis append.assoc append_Cons)
  moreover have "LF \<notin> set ?t" by (auto dest: set_takeWhileD)
  ultimately show ?thesis using assms(3) first_LF_unique by blast
qed

lemma dropCR_append: "ys \<noteq> [] \<Longrightarrow> dropCR (xs @ ys) = xs @ dropCR ys"
  by (simp add: dropCR_def butlast_append)

lemma conn_Read_steady:
  assumes "\<not> closed c" and "[] \<notin> set (incoming c)" and "0 < n"
    and "conn_Read n c = ((data, e), c')"
  shows "\<not> closed c' \<and> [] \<notin> set (incoming c') \<and> data @ concat (incoming c') = concat (incoming c)
     \<and> (if e = None then data \<noteq> [] else incoming c' = [] \<and> data = [])"
  using assms by (cases "incoming c") (auto simp: conn_Read_def split: if_splits)

lemma fill_loop_steady:
  assumes "steady b c" and "rerr b = None" and "length (unread b) < defaultBufSize"
    and "fill_loop (Suc i) b c = (b', c')"
  shows "steady b' c' \<and> pending b' c' = pending b c"
proof -
  obtain data e c1 where r: "conn_Read (defaultBufSize - length (unread b)) c = ((data, e), c1)"
    by (metis prod.exhaust)
  from assms(1,3) r
  have s: "\<not> closed c1 \<and> [] \<notin> set (incoming c1)
     \<and> data @ concat (incoming c1) = concat (incoming c)
     \<and> (if e = None then data \<noteq> [] else incoming c1 = [] \<and> data = [])"
    by (intro conn_Read_steady [of c "defaultBufSize - length (unread b)"]) (auto simp: steady_def)
  show ?thesis
  proof (cases e)
    case None
    with assms(4) r s have "b' = b\<lparr>unread := unread b @ data\<rparr>" "c' = c1" by auto
    with s assms(2) show ?thesis by (auto simp: steady_def pending_def)
  next
    case (Some err)
    with assms(4) r s have "b' = b\<lparr>unread := unread b @ data, rerr := Some err\<rparr>" "c' = c1" by auto
    with s Some show ?thesis by (auto simp: steady_def pending_def)
  qed
qed

lemma fill_steady:
  assumes "steady b c" and "rerr b = None" and "length (unread b) < defaultBufSize"
    and "fill b c = (b', c')"
  shows "steady b' c' \<and> pending b' c' = pending b c"
proof -
  have "maxConsecutiveEmptyReads = Suc 99" by (simp add: maxConsecutiveEmptyReads_def)
  with assms(4) have "fill_loop (Suc 99) b c = (b', c')" by (simp add: fill_def)
  with assms(1-3) show ?thesis by (rule fill_loop_steady)
qed

lemma readLine_loop_line:
  "steady b c \<Longrightarrow> pending b c = raw @ LF # rest \<Longrightarrow> LF \<notin> set raw \<Longrightarrow>
   readLine_loop acc b c = (r, b', c') \<Longrightarrow>
     r = Inr (acc @ dropCR raw) \<and> pending b' c' = rest \<and> steady b' c'"
proof (induction acc b c arbitrary: raw rule: readLine_loop.induct)
  case (1 acc b c)
  note st = "1.prems"(1) and pe = "1.prems"(2) and nl = "1.prems"(3) and rl = "1.prems"(4)
  show ?case
  proof (cases "LF \<in> set (unread b)")
    case True
    from pe have "unread b @ concat (incoming c) = raw @ LF # rest" by (simp add: pending_def)
    with True nl have "takeWhile (\<lambda>x. x \<noteq> LF) (unread b) = raw
        \<and> tl (dropWhile (\<lambda>x. x \<noteq> LF) (unread b)) @ concat (incoming c) = rest"
      by (intro first_LF_in_buffer)
    with True rl st show ?thesis
      by (auto simp: readLine_loop.simps [of acc b c] pending_def steady_def)
  next
    case noLF: False
    show ?thesis
    proof (cases "rerr b \<noteq> None")
      case True
      with st have "incoming c = []" by (auto simp: steady_def)
      with pe have "unread b = raw @ LF # rest" by (simp add: pending_def)
      with noLF show ?thesis by simp
    next
      case noErr: False
      from pe noLF obtain raw2 where raw2: "raw = unread b @ raw2"
          "concat (incoming c) = raw2 @ LF # rest"
        unfolding pending_def using split_before_LF by blast
      show ?thesis
      proof (cases "defaultBufSize \<le> length (unread b)")
        case full: True
        then have ne: "unread b \<noteq> []" by (auto simp: defaultBufSize_def)
        show ?thesis
        proof (cases "last (unread b) = CR")
          case True
          with noLF noErr full rl
          have c: "readLine_loop (acc @ butlast (unread b)) (b\<lparr>unread := [CR]\<rparr>) c = (r, b', c')"
            by (simp add: readLine_loop.simps [of acc b c])
          have s: "steady (b\<lparr>unread := [CR]\<rparr>) c" using st by (simp add: steady_def)
          have p: "pending (b\<lparr>unread := [CR]\<rparr>) c = (CR # raw2) @ LF # rest"
            using raw2 by (simp add: pending_def)
          have n: "LF \<notin> set (CR # raw2)" using nl raw2 by (auto simp: LF_def CR_def)
          from "1.IH"(1) [OF noLF noErr full True s p n c]
          have "r = Inr ((acc @ butlast (unread b)) @ dropCR (CR # raw2))
              \<and> pending b' c' = rest \<and> steady b' c'" .
          moreover have "butlast (unread b) @ dropCR (CR # raw2) = dropCR raw"
          proof -
            have "raw = butlast (unread b) @ (CR # raw2)"
              using raw2 ne True by (metis append.assoc append_Cons append_Nil append_butlast_last_id)
            then show ?thesis by (simp add: dropCR_append)
          qed
          ultimately show ?thesis by simp
        next
          case False
          with noLF noErr full rl
          have c: "readLine_loop (acc @ unread b) (b\<lparr>unread := []\<rparr>) c = (r, b', c')"
            by (simp add: readLine_loop.simps [of acc b c])
          have s: "steady (b\<lparr>unread := []\<rparr>) c" using st by (simp add: steady_def)
          have p: "pending (b\<lparr>unread := []\<rparr>) c = raw2 @ LF # rest"
            using raw2 by (simp add: pending_def)
          have n: "LF \<notin> set raw2" using nl raw2 by auto
          from "1.IH"(2) [OF noLF noErr full False s p n c]
          have "r = Inr ((acc @ unread b) @ dropCR raw2)
              \<and> pending b' c' = rest \<and> steady b' c'" .
          moreover have "unread b @ dropCR raw2 = dropCR raw"
          proof (cases "raw2 = []")
            case True
            with raw2 False ne show ?thesis by (simp add: dropCR_def)
          next
            case False
            with raw2 show ?thesis by (simp add: dropCR_append)
          qed
          ultimately show ?thesis by simp
        qed
      next
        case notfull: False
        obtain b1 c1 where f: "fill b c = (b1, c1)" by (metis prod.exhaust)
        with noLF noErr notfull rl
        have c: "readLine_loop acc b1 c1 = (r, b', c')"
          by (simp add: readLine_loop.simps [of acc b c])
        from st noErr notfull f have "steady b1 c1 \<and> pending b1 c1 = pending b c"
          by (intro fill_steady) auto
        with pe have s: "steady b1 c1" and p: "pending b1 c1 = raw @ LF # rest" by simp_all
        from "1.IH"(3) [OF noLF noErr notfull f [symmetric] s p nl c]
        show ?thesis .
      qed
    qed
  qed
qed

lemma dropCR_Nil_iff: "dropCR l = [] \<longleftrightarrow> l = [] \<or> l = [CR]"
proof (cases l rule: rev_cases)
  case Nil
  then show ?thesis by (simp add: dropCR_def)
next
  case (snoc ys y)
  then show ?thesis by (auto simp: dropCR_def)
qed

lemma readHeaderLines_head:
  "steady b c \<Longrightarrow>
   pending b c = concat (map (\<lambda>l. l @ [LF]) hls) @ eoh @ LF # rest \<Longrightarrow>
   \<forall>l\<in>set hls. LF \<notin> set l \<and> l \<noteq> [] \<and> l \<noteq> [CR] \<Longrightarrow>
   eoh = [] \<or> eoh = [CR] \<Longrightarrow>
   readHeaderLines hs b c = (r, b', c') \<Longrightarrow>
     r = Inr (hs @ map dropCR hls) \<and> pending b' c' = rest \<and> steady b' c'"
proof (induction hls arbitrary: hs b c)
  case Nil
  obtain r1 b1 c1 where rl: "readLine_loop [] b c = (r1, b1, c1)" by (metis prod.exhaust)
  have n: "LF \<notin> set eoh" using Nil.prems(4) by (auto simp: LF_def CR_def)
  from Nil.prems(2) have p: "pending b c = eoh @ LF # rest" by simp
  from readLine_loop_line [OF Nil.prems(1) p n rl]
  have 1: "r1 = Inr (dropCR eoh)" "pending b1 c1 = rest" "steady b1 c1" by simp_all
  have "dropCR eoh = []" using Nil.prems(4) by (simp add: dropCR_Nil_iff)
  with 1 rl Nil.prems(5) show ?case
    by (simp add: readHeaderLines.simps [of hs b c] readLine_def)
next
  case (Cons l hls)
  obtain r1 b1 c1 where rl: "readLine_loop [] b c = (r1, b1, c1)" by (metis prod.exhaust)
  from Cons.prems(3) have n: "LF \<notin> set l" and ne: "dropCR l \<noteq> []"
    by (simp_all add: dropCR_Nil_iff)
  from Cons.prems(2)
  have p: "pending b c = l @ LF # (concat (map (\<lambda>l. l @ [LF]) hls) @ eoh @ LF # rest)"
    by simp
  from readLine_loop_line [OF Cons.prems(1) p n rl]
  have 1: "r1 = Inr (dropCR l)"
    "pending b1 c1 = concat (map (\<lambda>l. l @ [LF]) hls) @ eoh @ LF # rest" "steady b1 c1"
    by simp_all
  from 1(1) rl ne Cons.prems(5)
  have rec: "readHeaderLines (hs @ [dropCR l]) b1 c1 = (r, b', c')"
    by (simp add: readHeaderLines.simps [of hs b c] readLine_def)
  from Cons.prems(3) have all: "\<forall>l\<in>set hls. LF \<notin> set l \<and> l \<noteq> [] \<and> l \<noteq> [CR]" by simp
  from Cons.IH [OF 1(3) 1(2) all Cons.prems(4) rec]
  show ?case by simp
qed

lemma ReadResponse_head:
  assumes st: "steady b c"
    and pe: "pending b c = responseHead sl hls eoh @ payload"
    and sl: "LF \<notin> set sl"
    and hl: "\<forall>l\<in>set hls. LF \<notin> set l \<and> l \<noteq> [] \<and> l \<noteq> [CR]"
    and eo: "eoh = [] \<or> eoh = [CR]"
    and rr: "ReadResponse lib b c = (Inr resp, b', c')"
  shows "pending b' c' = payload \<and> steady b' c' \<and> parseStatusLine lib (dropCR sl) = Inr resp"
proof -
  obtain r1 b1 c1 where rl: "readLine_loop [] b c = (r1, b1, c1)" by (metis prod.exhaust)
  from pe have p: "pending b c
      = sl @ LF # (concat (map (\<lambda>l. l @ [LF]) hls) @ eoh @ LF # payload)"
    by (simp add: responseHead_def)
  from readLine_loop_line [OF st p sl rl]
  have 1: "r1 = Inr (dropCR sl)"
    "pending b1 c1 = concat (map (\<lambda>l. l @ [LF]) hls) @ eoh @ LF # payload" "steady b1 c1"
    by simp_all
  obtain r2 b2 c2 where rh: "readHeaderLines [] b1 c1 = (r2, b2, c2)" by (metis prod.exhaust)
  from readHeaderLines_head [OF 1(3) 1(2) hl eo rh]
  have 2: "r2 = Inr (map dropCR hls)" "pending b2 c2 = payload" "steady b2 c2" by simp_all
  from rr rl 1(1) rh 2 show ?thesis
    by (auto simp: ReadResponse_def readLine_def split: sum.splits option.splits)
qed

lemma reads_only_refl: "reads_only c c"
  by (simp add: reads_only_def)

lemma reads_only_trans: "reads_only c c' \<Longrightarrow> reads_only c' c'' \<Longrightarrow> reads_only c c''"
  unfolding reads_only_def
proof -
  assume a: "c' = c\<lparr>incoming := incoming c'\<rparr>" and b: "c'' = c'\<lparr>incoming := incoming c''\<rparr>"
  have "c'' = (c\<lparr>incoming := incoming c'\<rparr>)\<lparr>incoming := incoming c''\<rparr>"
    using a b by simp
  then show "c'' = c\<lparr>incoming := incoming c''\<rparr>" by simp
qed

lemma conn_Read_reads_only: "conn_Read n c = (r, c') \<Longrightarrow> reads_only c c'"
  by (auto simp: conn_Read_def reads_only_def split: if_splits list.splits)

lemma fill_loop_reads_only: "fill_loop i b c = (b', c') \<Longrightarrow> reads_only c c'"
proof (induction i arbitrary: b c)
  case 0
  then show ?case by (simp add: reads_only_refl)
next
  case (Suc i)
  obtain data e c1 where r: "conn_Read (defaultBufSize - length (unread b)) c = ((data, e), c1)"
    by (metis prod.exhaust)
  then have 1: "reads_only c c1" by (rule conn_Read_reads_only)
  show ?case
  proof (cases "e = None \<and> data = []")
    case True
    with Suc.prems r have "fill_loop i (b\<lparr>unread := unread b @ data\<rparr>) c1 = (b', c')" by simp
    then have "reads_only c1 c'" by (rule Suc.IH)
    with 1 show ?thesis by (rule reads_only_trans)
  next
    case False
    with Suc.prems r have "c' = c1" by (auto simp: Let_def split: option.splits if_splits)
    with 1 show ?thesis by simp
  qed
qed

lemma readLine_loop_reads_only: "readLine_loop acc b c = (r, b', c') \<Longrightarrow> reads_only c c'"
proof (induction acc b c rule: readLine_loop.induct)
  case (1 acc b c)
  show ?case
  proof (cases "LF \<in> set (unread b) \<or> rerr b \<noteq> None")
    case True
    with "1.prems" have "c' = c"
      by (auto simp: readLine_loop.simps [of acc b c] split: if_splits)
    then show ?thesis by (simp add: reads_only_refl)
  next
    case False
    then have noLF: "LF \<notin> set (unread b)" and noErr: "\<not> rerr b \<noteq> None" by simp_all
    show ?thesis
    proof (cases "defaultBufSize \<le> length (unread b)")
      case full: True
      show ?thesis
      proof (cases "last (unread b) = CR")
        case True
        with noLF noErr full "1.prems"
        have "readLine_loop (acc @ butlast (unread b)) (b\<lparr>unread := [CR]\<rparr>) c = (r, b', c')"
          by (simp add: readLine_loop.simps [of acc b c])
        from "1.IH"(1) [OF noLF noErr full True this] show ?thesis .
      next
        case False
        with noLF noErr full "1.prems"
        have "readLine_loop (acc @ unread b) (b\<lparr>unread := []\<rparr>) c = (r, b', c')"
          by (simp add: readLine_loop.simps [of acc b c])
        from "1.IH"(2) [OF noLF noErr full False this] show ?thesis .
      qed
    next
      case notfull: False
      obtain b1 c1 where f: "fill b c = (b1, c1)" by (metis prod.exhaust)
      with noLF noErr notfull "1.prems"
      have c: "readLine_loop acc b1 c1 = (r, b', c')"
        by (simp add: readLine_loop.simps [of acc b c])
      from f have "reads_only c c1" by (simp add: fill_def fill_loop_reads_only)
      moreover from "1.IH"(3) [OF noLF noErr notfull f [symmetric] c] have "reads_only c1 c'" .
      ultimately show ?thesis by (rule reads_only_trans)
    qed
  qed
qed

lemma readHeaderLines_reads_only: "readHeaderLines hs b c = (r, b', c') \<Longrightarrow> reads_only c c'"
proof (induction hs b c rule: readHeaderLines.induct)
  case (1 hs b c)
  obtain r1 b1 c1 where rl: "readLine b c = (r1, b1, c1)" by (metis prod.exhaust)
  then have 0: "reads_only c c1" by (simp add: readLine_def readLine_loop_reads_only)
  show ?case
  proof (cases r1)
    case (Inl err)
    with rl "1.prems" have "c' = c1" by (simp add: readHeaderLines.simps [of hs b c])
    with 0 show ?thesis by simp
  next
    case (Inr l)
    show ?thesis
    proof (cases "length l = 0")
      case True
      with Inr rl "1.prems" have "c' = c1" by (simp add: readHeaderLines.simps [of hs b c])
      with 0 show ?thesis by simp
    next
      case False
      with Inr rl "1.prems" have c: "readHeaderLines (hs @ [l]) b1 c1 = (r, b', c')"
        by (simp add: readHeaderLines.simps [of hs b c])
      have "reads_only c1 c'"
        using "1.IH" [OF rl [symmetric] _ _ False c] Inr by simp
      with 0 show ?thesis by (rule reads_only_trans)
    qed
  qed
qed

lemma ReadResponse_reads_only: "ReadResponse lib b c = (r, b', c') \<Longrightarrow> reads_only c c'"
proof -
  assume a: "ReadResponse lib b c = (r, b', c')"
  obtain r1 b1 c1 where rl: "readLine b c = (r1, b1, c1)" by (metis prod.exhaust)
  then have 0: "reads_only c c1" by (simp add: readLine_def readLine_loop_reads_only)
  obtain r2 b2 c2 where rh: "readHeaderLines [] b1 c1 = (r2, b2, c2)" by (metis prod.exhaust)
  then have 1: "reads_only c1 c2" by (rule readHeaderLines_reads_only)
  from a rl rh have "c' = c1 \<or> c' = c2"
    by (auto simp: ReadResponse_def split: sum.splits option.splits)
  with 0 1 show ?thesis by (auto intro: reads_only_trans)
qed

section \<open>Rejected tunnels\<close>

lemma conn_Write_closed: "conn_Write bs c = (None, c') \<Longrightarrow> closed c' = closed c"
  by (auto simp: conn_Write_def split: if_splits option.splits)

lemma SetDeadline_open: "conn_SetDeadline t c = (None, c') \<Longrightarrow> \<not> closed c'"
  by (auto simp: conn_SetDeadline_def split: if_splits option.splits)

lemma SetReadDeadline_open: "conn_SetReadDeadline t c = (None, c') \<Longrightarrow> \<not> closed c'"
  by (auto simp: conn_SetReadDeadline_def split: if_splits option.splits)

lemma SetWriteDeadline_open: "conn_SetWriteDeadline t c = (None, c') \<Longrightarrow> \<not> closed c'"
  by (auto simp: conn_SetWriteDeadline_def split: if_splits option.splits)

lemma Request_Write_closed: "Request_Write lib target c = (None, c') \<Longrightarrow> closed c' = closed c"
  by (auto simp: Request_Write_def split: sum.splits dest: conn_Write_closed)

text \<open>
  Claim C1, as amended. When the proxy's response parses and its status code is not 200,
  \<open>connect\<close> returns the raw connection, not closed, together with an error whose
  message ends with the status text as the proxy sent it; \<open>Dial\<close> then closes that
  connection and returns the error and no connection.
\<close>

theorem tunnel_rejected:
  assumes "fdial (forward s) (network s) (dialAddr s) = Inr c0"
    and "conn_SetDeadline (Add (clock 0) (timeout s)) c0 = (None, c1)"
    and "conn_SetReadDeadline (Add (clock 1) (timeout s)) c1 = (None, c2)"
    and "conn_SetWriteDeadline (Add (clock 2) (timeout s)) c2 = (None, c3)"
    and "Request_Write lib target c3 = (None, c4)"
    and "ReadResponse lib NewReader c4 = (Inr resp, br, c5)"
    and "StatusCode resp \<noteq> 200"
  shows "connect lib s c3 target
       = (Raw c5, Some (Error (''unable to proxy connection: '' @ Status resp)))
     \<and> \<not> closed c5
     \<and> Dial lib fdial clock s nw target
       = (Inl (Error (''unable to proxy connection: '' @ Status resp)),
          Some (c5\<lparr>closed := True\<rparr>))"
proof -
  have c: "connect lib s c3 target
       = (Raw c5, Some (Error (''unable to proxy connection: '' @ Status resp)))"
    using assms(5-7) by (simp add: connect_def)
  have "\<not> closed c3" using assms(4) by (rule SetWriteDeadline_open)
  then have "\<not> closed c4" using assms(5) by (simp add: Request_Write_closed)
  moreover have "reads_only c4 c5" using assms(6) by (rule ReadResponse_reads_only)
  ultimately have o: "\<not> closed c5" by (metis reads_only_def conn.select_convs(3) conn.surjective conn.update_convs(1))
  then have "conn_Close c5 = (None, c5\<lparr>closed := True\<rparr>)" by (simp add: conn_Close_def)
  then have "Dial lib fdial clock s nw target
       = (Inl (Error (''unable to proxy connection: '' @ Status resp)),
          Some (c5\<lparr>closed := True\<rparr>))"
    using assms(1-4) c by (simp add: Dial_def Close_def rawConn_def)
  with c o show ?thesis by simp
qed

text \<open>
  The claim as stated fails: after a 407 \<open>Dial\<close> returns no connection, and the raw
  connection is closed.
\<close>

theorem tunnel_rejected_counterexample:
  "fst (Dial lib_double dial_407 clock_double proxy_double ''tcp'' ''example.com:443'')
     = Inl (Error ''unable to proxy connection: 407 Proxy Authentication Required'')
   \<and> map_option closed
        (snd (Dial lib_double dial_407 clock_double proxy_double ''tcp'' ''example.com:443''))
     = Some True"
  by code_simp

theorem tunnel_rejected_witness:
  "connect lib_double proxy_double
       ((conn_double [''HTTP/1.1 407 Proxy Authentication Required'' @ [CR, LF, CR, LF]])
          \<lparr>readDeadline := Some 500001001, writeDeadline := Some 500001002\<rparr>)
       ''example.com:443''
     = (Raw rejected_407,
        Some (Error ''unable to proxy connection: 407 Proxy Authentication Required''))
   \<and> \<not> closed rejected_407
   \<and> Dial lib_double dial_407 clock_double proxy_double ''tcp'' ''example.com:443''
     = (Inl (Error ''unable to proxy connection: 407 Proxy Authentication Required''),
        Some (rejected_407\<lparr>closed := True\<rparr>))"
proof -
  let ?c0 = "conn_double [''HTTP/1.1 407 Proxy Authentication Required'' @ [CR, LF, CR, LF]]"
  let ?c1 = "?c0\<lparr>readDeadline := Some 500001000, writeDeadline := Some 500001000\<rparr>"
  let ?c2 = "?c0\<lparr>readDeadline := Some 500001001, writeDeadline := Some 500001000\<rparr>"
  let ?c3 = "?c0\<lparr>readDeadline := Some 500001001, writeDeadline := Some 500001002\<rparr>"
  let ?c4 = "rejected_407\<lparr>incoming := incoming ?c0\<rparr>"
  let ?resp = "\<lparr>Status = ''407 Proxy Authentication Required'', StatusCode = 407,
                 Proto = ''HTTP/1.1''\<rparr>"
  have h1: "dial_407 (forward proxy_double) (network proxy_double) (dialAddr proxy_double)
      = Inr ?c0"
    by (simp add: dial_407_def)
  have h2: "conn_SetDeadline (Add (clock_double 0) (timeout proxy_double)) ?c0 = (None, ?c1)"
    by code_simp
  have h3: "conn_SetReadDeadline (Add (clock_double 1) (timeout proxy_double)) ?c1 = (None, ?c2)"
    by code_simp
  have h4: "conn_SetWriteDeadline (Add (clock_double 2) (timeout proxy_double)) ?c2 = (None, ?c3)"
    by code_simp
  have h5: "Request_Write lib_double ''example.com:443'' ?c3 = (None, ?c4)"
    by code_simp
  have h6: "ReadResponse lib_double NewReader ?c4 = (Inr ?resp, NewReader, rejected_407)"
    by code_simp
  have h7: "StatusCode ?resp \<noteq> 200" by simp
  from tunnel_rejected
         [where fdial = dial_407 and clock = clock_double and s = proxy_double
            and nw = "''tcp''", OF h1 h2 h3 h4 h5 h6 h7]
  show ?thesis by simp
qed

section \<open>Reading through the tunnel\<close>

lemma conn_Read_conserves:
  "conn_Read n c = ((data, e), c') \<Longrightarrow> data @ concat (incoming c') = concat (incoming c)"
  by (auto simp: conn_Read_def split: if_splits list.splits)

lemma bufferedConn_Read_buffered:
  "0 < Buffered (reader bc) \<Longrightarrow>
     bufferedConn_Read n bc =
       ((take n (unread (reader bc)), None),
        bc\<lparr>reader := (reader bc)\<lparr>unread := drop n (unread (reader bc))\<rparr>\<rparr>)"
  by (cases "n = 0") (auto simp: bufferedConn_Read_def bufio_Read_def Buffered_def)

lemma bufferedConn_Read_drained:
  "Buffered (reader bc) = 0 \<Longrightarrow>
     bufferedConn_Read n bc = (fst (conn_Read n (Conn bc)), bc\<lparr>Conn := snd (conn_Read n (Conn bc))\<rparr>)"
  by (simp add: bufferedConn_Read_def split: prod.splits)

lemma Read_conserves:
  "Read n nc = ((data, e), nc') \<Longrightarrow> data @ unreadBytes nc' = unreadBytes nc"
proof (cases nc)
  case (Raw c)
  then show "Read n nc = ((data, e), nc') \<Longrightarrow> ?thesis"
    by (auto simp: Read_def unreadBytes_def split: prod.splits dest: conn_Read_conserves)
next
  case (Wrapped bc)
  assume r: "Read n nc = ((data, e), nc')"
  show ?thesis
  proof (cases "0 < Buffered (reader bc)")
    case True
    with r Wrapped show ?thesis
      by (auto simp: Read_def unreadBytes_def bufferedConn_Read_buffered)
  next
    case False
    then have z: "Buffered (reader bc) = 0" by simp
    obtain d e1 c1 where cr: "conn_Read n (Conn bc) = ((d, e1), c1)" by (metis prod.exhaust)
    from cr have "d @ concat (incoming c1) = concat (incoming (Conn bc))"
      by (rule conn_Read_conserves)
    with r Wrapped z cr show ?thesis
      by (auto simp: Read_def unreadBytes_def bufferedConn_Read_drained Buffered_def)
  qed
qed

lemma Reads_conserves:
  "fst (Reads ns nc) @ unreadBytes (snd (Reads ns nc)) = unreadBytes nc"
proof (induction ns arbitrary: nc)
  case Nil
  show ?case by simp
next
  case (Cons n ns)
  obtain data e nc1 where r: "Read n nc = ((data, e), nc1)" by (metis prod.exhaust)
  from Cons.IH [of nc1] Read_conserves [OF r] r show ?case
    by (simp split: prod.splits) (metis append.assoc fst_conv snd_conv)
qed

lemma conn_Read_progress:
  assumes "\<not> closed c" and "[] \<notin> set (incoming c)" and "0 < n"
    and "conn_Read n c = ((data, e), c')"
  shows "\<not> closed c' \<and> [] \<notin> set (incoming c') \<and> (concat (incoming c) \<noteq> [] \<longrightarrow> data \<noteq> [])"
  using assms by (cases "incoming c") (auto simp: conn_Read_def split: if_splits)

lemma Read_progress:
  assumes "live nc" and "0 < n" and "Read n nc = ((data, e), nc')"
  shows "live nc' \<and> (unreadBytes nc \<noteq> [] \<longrightarrow> data \<noteq> [])"
proof (cases nc)
  case (Raw c)
  obtain d e1 c1 where cr: "conn_Read n c = ((d, e1), c1)" by (metis prod.exhaust)
  from assms(1) Raw have "\<not> closed c" "[] \<notin> set (incoming c)" by (simp_all add: live_def rawConn_def)
  from conn_Read_progress [OF this assms(2) cr] assms(3) Raw cr show ?thesis
    by (auto simp: Read_def live_def rawConn_def unreadBytes_def)
next
  case (Wrapped bc)
  show ?thesis
  proof (cases "0 < Buffered (reader bc)")
    case True
    with assms Wrapped show ?thesis
      by (auto simp: Read_def unreadBytes_def bufferedConn_Read_buffered live_def rawConn_def
            Buffered_def)
  next
    case False
    then have z: "Buffered (reader bc) = 0" by simp
    obtain d e1 c1 where cr: "conn_Read n (Conn bc) = ((d, e1), c1)" by (metis prod.exhaust)
    from assms(1) Wrapped have "\<not> closed (Conn bc)" "[] \<notin> set (incoming (Conn bc))"
      by (simp_all add: live_def rawConn_def)
    from conn_Read_progress [OF this assms(2) cr] assms(3) Wrapped cr z show ?thesis
      by (auto simp: Read_def live_def rawConn_def unreadBytes_def bufferedConn_Read_drained
            Buffered_def)
  qed
qed

lemma Reads_progress:
  "live nc \<Longrightarrow> \<forall>n\<in>set ns. 0 < n \<Longrightarrow>
     min (length ns) (length (unreadBytes nc)) \<le> length (fst (Reads ns nc))"
proof (induction ns arbitrary: nc)
  case Nil
  show ?case by simp
next
  case (Cons n ns)
  obtain data e nc1 where r: "Read n nc = ((data, e), nc1)" by (metis prod.exhaust)
  from Cons.prems have n: "0 < n" and ns: "\<forall>n\<in>set ns. 0 < n" by simp_all
  from Read_progress [OF Cons.prems(1) n r]
  have l: "live nc1" and d: "unreadBytes nc \<noteq> [] \<longrightarrow> data \<noteq> []" by simp_all
  have c: "length data + length (unreadBytes nc1) = length (unreadBytes nc)"
    using Read_conserves [OF r] by (metis length_append)
  have ih: "min (length ns) (length (unreadBytes nc1)) \<le> length (fst (Reads ns nc1))"
    using Cons.IH [OF l ns] .
  have f: "length (fst (Reads (n # ns) nc)) = length data + length (fst (Reads ns nc1))"
    using r by (simp split: prod.splits)
  show ?case
  proof (cases "unreadBytes nc = []")
    case True
    then show ?thesis by simp
  next
    case False
    with d have "1 \<le> length data" by (cases data) simp_all
    with c ih
    have "min (Suc (length ns)) (length (unreadBytes nc))
        \<le> length data + length (fst (Reads ns nc1))"
      by arith
    then show ?thesis unfolding f by simp
  qed
qed

lemma Reads_all:
  assumes "live nc" and "\<forall>n\<in>set ns. 0 < n" and "length (unreadBytes nc) \<le> length ns"
  shows "fst (Reads ns nc) = unreadBytes nc"
proof -
  have "length (unreadBytes nc) \<le> length (fst (Reads ns nc))"
    using Reads_progress [OF assms(1,2)] assms(3) by (simp add: min_def split: if_splits)
  moreover have "fst (Reads ns nc) @ unreadBytes (snd (Reads ns nc)) = unreadBytes nc"
    by (rule Reads_conserves)
  ultimately show ?thesis
    by (metis append_eq_conv_conj length_append add_diff_cancel_left' le_antisym le_add1
          length_0_conv append_Nil2 diff_is_0_eq)
qed

lemma SetDeadline_incoming:
  "conn_SetDeadline t c = (None, c') \<Longrightarrow> \<not> closed c' \<and> incoming c' = incoming c"
  by (auto simp: conn_SetDeadline_def split: if_splits option.splits)

lemma SetReadDeadline_incoming:
  "conn_SetReadDeadline t c = (None, c') \<Longrightarrow> \<not> closed c' \<and> incoming c' = incoming c"
  by (auto simp: conn_SetReadDeadline_def split: if_splits option.splits)

lemma SetWriteDeadline_incoming:
  "conn_SetWriteDeadline t c = (None, c') \<Longrightarrow> \<not> closed c' \<and> incoming c' = incoming c"
  by (auto simp: conn_SetWriteDeadline_def split: if_splits option.splits)

lemma Request_Write_incoming:
  "Request_Write lib target c = (None, c') \<Longrightarrow> closed c' = closed c \<and> incoming c' = incoming c"
  by (auto simp: Request_Write_def conn_Write_def split: sum.splits if_splits option.splits)

lemma connect_success:
  assumes "connect lib s c3 target = (nc, None)"
  shows "\<exists>c4 resp br c5. Request_Write lib target c3 = (None, c4)
           \<and> ReadResponse lib NewReader c4 = (Inr resp, br, c5)
           \<and> StatusCode resp = 200 \<and> nc = Wrapped \<lparr>Conn = c5, reader = br\<rparr>"
  using assms
  by (auto simp: connect_def split: prod.splits option.splits sum.splits if_splits)

lemma Dial_success:
  assumes "Dial lib fdial clock s nw target = (Inr nc, raw)"
    and "fdial (forward s) (network s) (dialAddr s) = Inr c0"
  shows "\<exists>c3. \<not> closed c3 \<and> incoming c3 = incoming c0 \<and> connect lib s c3 target = (nc, None)"
proof -
  from assms obtain c1 c2 c3 where
    d: "conn_SetDeadline (Add (clock 0) (timeout s)) c0 = (None, c1)"
       "conn_SetReadDeadline (Add (clock 1) (timeout s)) c1 = (None, c2)"
       "conn_SetWriteDeadline (Add (clock 2) (timeout s)) c2 = (None, c3)"
       "connect lib s c3 target = (nc, None)"
    by (auto simp: Dial_def split: prod.splits option.splits)
  from d(1-3) have "\<not> closed c3 \<and> incoming c3 = incoming c0"
    by (auto dest!: SetDeadline_incoming SetReadDeadline_incoming SetWriteDeadline_incoming)
  with d(4) show ?thesis by blast
qed

text \<open>
  Claim C2. Let the proxy send a response head and then \<open>payload\<close>, in any chunks, and let
  \<open>Dial\<close> succeed. Then whatever the sizes of the caller's reads, the bytes read so far
  followed by the bytes still unread are \<open>payload\<close>: nothing is lost, repeated or out of
  order; and reads of positive size, at least as many as \<open>payload\<close> has bytes, return
  all of it. The connection returned is a \<open>bufferedConn\<close>; its \<open>Read\<close> serves from the
  handshake's reader while that holds bytes, and calls the raw connection's \<open>Read\<close>
  once it holds none.
\<close>

theorem tunnel_reads_payload:
  assumes fwd: "fdial (forward s) (network s) (dialAddr s) = Inr c0"
    and chunks: "[] \<notin> set (incoming c0)"
    and stream: "concat (incoming c0) = responseHead sl hls eoh @ payload"
    and sl: "LF \<notin> set sl"
    and hls: "\<forall>l\<in>set hls. LF \<notin> set l \<and> l \<noteq> [] \<and> l \<noteq> [CR]"
    and eoh: "eoh = [] \<or> eoh = [CR]"
    and ok: "Dial lib fdial clock s nw target = (Inr nc, raw)"
  shows "(\<forall>ns. fst (Reads ns nc) @ unreadBytes (snd (Reads ns nc)) = payload)
     \<and> (\<forall>ns. (\<forall>n\<in>set ns. 0 < n) \<and> length payload \<le> length ns \<longrightarrow>
           fst (Reads ns nc) = payload)
     \<and> (\<exists>bc. nc = Wrapped bc \<and> unread (reader bc) @ concat (incoming (Conn bc)) = payload)
     \<and> (\<forall>n bc. 0 < Buffered (reader bc) \<longrightarrow>
           bufferedConn_Read n bc =
             ((take n (unread (reader bc)), None),
              bc\<lparr>reader := (reader bc)\<lparr>unread := drop n (unread (reader bc))\<rparr>\<rparr>))
     \<and> (\<forall>n bc. Buffered (reader bc) = 0 \<longrightarrow>
           bufferedConn_Read n bc =
             (fst (conn_Read n (Conn bc)), bc\<lparr>Conn := snd (conn_Read n (Conn bc))\<rparr>))"
proof -
  from Dial_success [OF ok fwd] obtain c3 where
    c3: "\<not> closed c3" "incoming c3 = incoming c0" "connect lib s c3 target = (nc, None)"
    by blast
  from connect_success [OF c3(3)] obtain c4 resp br c5 where
    w: "Request_Write lib target c3 = (None, c4)"
    and r: "ReadResponse lib NewReader c4 = (Inr resp, br, c5)"
    and nc: "nc = Wrapped \<lparr>Conn = c5, reader = br\<rparr>"
    by blast
  from w c3 have c4: "\<not> closed c4" "incoming c4 = incoming c0"
    by (auto dest: Request_Write_incoming)
  with chunks have st: "steady NewReader c4" by (simp add: steady_def NewReader_def)
  from c4 stream have pe: "pending NewReader c4 = responseHead sl hls eoh @ payload"
    by (simp add: pending_def NewReader_def)
  from ReadResponse_head [OF st pe sl hls eoh r]
  have p: "pending br c5 = payload" and s5: "steady br c5" by simp_all
  from p nc have u: "unreadBytes nc = payload" by (simp add: unreadBytes_def pending_def)
  from s5 nc have l: "live nc" by (simp add: live_def steady_def rawConn_def)
  have 1: "\<forall>ns. fst (Reads ns nc) @ unreadBytes (snd (Reads ns nc)) = payload"
    using Reads_conserves u by simp
  have 2: "\<forall>ns. (\<forall>n\<in>set ns. 0 < n) \<and> length payload \<le> length ns \<longrightarrow>
           fst (Reads ns nc) = payload"
    using Reads_all [OF l] u by simp
  have 3: "\<exists>bc. nc = Wrapped bc \<and> unread (reader bc) @ concat (incoming (Conn bc)) = payload"
    using nc p by (simp add: pending_def)
  from 1 2 3 bufferedConn_Read_buffered bufferedConn_Read_drained show ?thesis by blast
qed

lemma Dial_200:
  "Dial lib_double dial_200 clock_double proxy_double ''tcp'' ''example.com:443''
     = (Inr tunnel_200, Some (rawConn tunnel_200))"
  by code_simp

theorem tunnel_reads_payload_witness:
  "fst (Reads [1, 1, 1, 1, 1, 1, 1, 1, 1, 1, 1] tunnel_200) = ''hello world''
   \<and> fst (Reads [2, 0, 4096] tunnel_200) @ unreadBytes (snd (Reads [2, 0, 4096] tunnel_200))
       = ''hello world''"
proof -
  let ?c0 = "conn_double
            [''HTTP/1.1 200 OK'' @ [CR, LF],
             ''Via: proxy'' @ [CR, LF, CR, LF] @ ''hello'',
             '' world'']"
  have fwd: "dial_200 (forward proxy_double) (network proxy_double) (dialAddr proxy_double)
      = Inr ?c0"
    by (simp add: dial_200_def)
  have chunks: "[] \<notin> set (incoming ?c0)" by (simp add: conn_double_def)
  have stream: "concat (incoming ?c0)
      = responseHead (''HTTP/1.1 200 OK'' @ [CR]) [''Via: proxy'' @ [CR]] [CR] @ ''hello world''"
    by (simp add: conn_double_def responseHead_def)
  have sl: "LF \<notin> set (''HTTP/1.1 200 OK'' @ [CR])" by (simp add: LF_def CR_def)
  have hls: "\<forall>l\<in>set [''Via: proxy'' @ [CR]]. LF \<notin> set l \<and> l \<noteq> [] \<and> l \<noteq> [CR]"
    by (simp add: LF_def CR_def)
  have eoh: "[CR] = [] \<or> [CR] = [CR]" by simp
  note t = tunnel_reads_payload [OF fwd chunks stream sl hls eoh Dial_200]
  from t have "(\<forall>n\<in>set [1, 1, 1, 1, 1, 1, 1, 1, 1, 1, 1::nat]. 0 < n)
       \<and> length ''hello world'' \<le> length [1, 1, 1, 1, 1, 1, 1, 1, 1, 1, 1::nat] \<longrightarrow>
     fst (Reads [1, 1, 1, 1, 1, 1, 1, 1, 1, 1, 1] tunnel_200) = ''hello world''"
    by blast
  then have 1: "fst (Reads [1, 1, 1, 1, 1, 1, 1, 1, 1, 1, 1] tunnel_200) = ''hello world''"
    by simp
  from t have 2: "fst (Reads [2, 0, 4096] tunnel_200)
       @ unreadBytes (snd (Reads [2, 0, 4096] tunnel_200)) = ''hello world''"
    by blast
  from 1 2 show ?thesis by simp
qed

end
